theory Spec2Isabelle
  imports Main "HOL-Library.Sublist"
begin

section \<open>Strings and the parameter-token regular expression\<close>

text \<open>
  A JavaScript string is modelled as a \<^typ>\<open>string\<close>: a list of code units, each below 256.
  The regular expression \<^verbatim>\<open>/:(\w+)/g\<close> occurs in \<^verbatim>\<open>getParamNames\<close>,
  \<^verbatim>\<open>validateParams\<close> and \<^verbatim>\<open>isActive\<close>. Without the unicode flag \<^verbatim>\<open>\w\<close> is
  \<^verbatim>\<open>[A-Za-z0-9_]\<close>; a global match scans from the left, takes at each colon that is followed by
  a word character the longest run of word characters, and resumes after the match.
\<close>

definition is_word :: "char \<Rightarrow> bool" where
  "is_word c =
     (let n = (of_char c :: nat)
      in (48 \<le> n \<and> n \<le> 57) \<or> (65 \<le> n \<and> n \<le> 90) \<or> n = 95 \<or> (97 \<le> n \<and> n \<le> 122))"

function match_all_params :: "string \<Rightarrow> string list" where
  "match_all_params [] = []"
| "match_all_params (c # cs) =
     (if c = CHR '':'' \<and> takeWhile is_word cs \<noteq> []
      then (c # takeWhile is_word cs) # match_all_params (dropWhile is_word cs)
      else match_all_params cs)"
  by pat_completeness auto
termination
  by (relation "measure length") (auto simp: length_dropWhile_le less_Suc_eq_le)

text \<open>\<^verbatim>\<open>path.match(/:(\w+)/g)\<close>: the array of all matches, or \<^verbatim>\<open>null\<close> when there is none.\<close>

definition js_match_params :: "string \<Rightarrow> string list option" where
  "js_match_params path =
     (let ms = match_all_params path in if ms = [] then None else Some ms)"

text \<open>\<^verbatim>\<open>getParamNames\<close> of route-registry.ts: \<^verbatim>\<open>m.slice(1)\<close> drops the colon of each match.\<close>

definition getParamNames :: "string \<Rightarrow> string list" where
  "getParamNames path =
     (case js_match_params path of
        Some matches \<Rightarrow> map (drop 1) matches
      | None \<Rightarrow> [])"

text \<open>
  \<^verbatim>\<open>s.split(sep)\<close> for a one-character separator: the pieces between the separators;
  the empty string gives one empty piece.
\<close>

fun split_on :: "char \<Rightarrow> string \<Rightarrow> string list" where
  "split_on sep [] = [[]]"
| "split_on sep (x # xs) =
     (let r = split_on sep xs in if x = sep then [] # r else (x # hd r) # tl r)"

text \<open>
  The extraction as the specification words it: split the template on \<^verbatim>\<open>/\<close>, keep the
  non-empty segments whose first character is a colon, and yield what follows the colon.
\<close>

definition extractParameterNames_spec :: "string \<Rightarrow> string list" where
  "extractParameterNames_spec t =
     map tl (filter (\<lambda>s. s \<noteq> [] \<and> hd s = CHR '':'') (split_on CHR ''/'' t))"

text \<open>
  A segment on which both readings agree: it has no colon at all, or it is a colon followed by
  one or more word characters and nothing else.
\<close>

definition plain_segment :: "string \<Rightarrow> bool" where
  "plain_segment s =
     (case s of
        [] \<Rightarrow> True
      | c # name \<Rightarrow>
          if c = CHR '':'' then name \<noteq> [] \<and> list_all is_word name
          else CHR '':'' \<notin> set s)"

definition plain_template :: "string \<Rightarrow> bool" where
  "plain_template t = list_all plain_segment (split_on CHR ''/'' t)"

text \<open>The inverse of \<^const>\<open>split_on\<close> at the slash.\<close>

fun join_slash :: "string list \<Rightarrow> string" where
  "join_slash [] = []"
| "join_slash [s] = s"
| "join_slash (s # ss) = s @ CHR ''/'' # join_slash ss"

text \<open>
  The type-level extraction of route-types.ts, as functions on strings; a union of string
  literal types is the set of its members. \<^verbatim>\<open>ExtractParamFromSegment<S>\<close> is
  \<^verbatim>\<open>S extends `:${infer Param}` ? Param : never\<close>: the text after a leading colon, which may
  be empty.
\<close>

definition ExtractParamFromSegment :: "string \<Rightarrow> string set" where
  "ExtractParamFromSegment s =
     (case s of
        [] \<Rightarrow> {}
      | c # param \<Rightarrow> if c = CHR '':'' then {param} else {})"

text \<open>
  \<^verbatim>\<open>ExtractPathParams<Path>\<close>: when the path has the form
  \<^verbatim>\<open>`${infer Segment}/${infer Rest}`\<close>, where the first inferred part is the text before the
  first slash, the parameter of the segment joined with the parameters of the rest; otherwise
  the parameter of the whole path. \<^verbatim>\<open>PathParams<Path>\<close> has these names as its keys.
\<close>

function ExtractPathParams :: "string \<Rightarrow> string set" where
  "ExtractPathParams path =
     (if CHR ''/'' \<in> set path
      then ExtractParamFromSegment (takeWhile (\<lambda>c. c \<noteq> CHR ''/'') path)
           \<union> ExtractPathParams (drop 1 (dropWhile (\<lambda>c. c \<noteq> CHR ''/'') path))
      else ExtractParamFromSegment path)"
  by pat_completeness auto
termination
proof (relation "measure length")
  show "wf (measure length)" by simp
next
  fix path :: string
  assume "CHR ''/'' \<in> set path"
  then have "dropWhile (\<lambda>c. c \<noteq> CHR ''/'') path \<noteq> []" by simp
  then have "length (drop 1 (dropWhile (\<lambda>c. c \<noteq> CHR ''/'') path))
               < length (dropWhile (\<lambda>c. c \<noteq> CHR ''/'') path)"
    by simp
  also have "\<dots> \<le> length path" by (rule length_dropWhile_le)
  finally show "(drop 1 (dropWhile (\<lambda>c. c \<noteq> CHR ''/'') path), path) \<in> measure length"
    by simp
qed

declare ExtractPathParams.simps [simp del]

section \<open>Building a path: \<^verbatim>\<open>buildPath\<close>\<close>

text \<open>
  \<^verbatim>\<open>encodeURIComponent\<close> on code units below 256: the unreserved characters (letters, digits
  and \<^verbatim>\<open>- _ . ! ~ * ' ( )\<close>) stay, every other character becomes the percent-encoded bytes
  of its UTF-8 form, in upper-case hexadecimal.
\<close>

definition hex_digit :: "nat \<Rightarrow> char" where
  "hex_digit n = ''0123456789ABCDEF'' ! n"

definition percent_byte :: "nat \<Rightarrow> string" where
  "percent_byte b = [CHR ''%'', hex_digit (b div 16), hex_digit (b mod 16)]"

definition is_alnum :: "char \<Rightarrow> bool" where
  "is_alnum c =
     (let n = (of_char c :: nat)
      in (48 \<le> n \<and> n \<le> 57) \<or> (65 \<le> n \<and> n \<le> 90) \<or> (97 \<le> n \<and> n \<le> 122))"

definition uri_unreserved :: "char \<Rightarrow> bool" where
  "uri_unreserved c =
     (is_alnum c \<or> (of_char c :: nat) \<in> set [45, 95, 46, 33, 126, 42, 39, 40, 41])"

definition utf8_bytes :: "char \<Rightarrow> nat list" where
  "utf8_bytes c =
     (let n = (of_char c :: nat)
      in if n < 128 then [n] else [192 + n div 64, 128 + n mod 64])"

definition encodeURIComponent :: "string \<Rightarrow> string" where
  "encodeURIComponent s =
     concat (map (\<lambda>c. if uri_unreserved c then [c]
                       else concat (map percent_byte (utf8_bytes c))) s)"

text \<open>
  \<^verbatim>\<open>s.replace(pat, rep)\<close> with a string pattern replaces the first occurrence only. The
  replacement text is inserted as it is when it has no dollar sign, which
  \<^verbatim>\<open>encodeURIComponent\<close> guarantees (lemma \<open>encodeURIComponent_plain\<close> below).
\<close>

fun replace_first :: "string \<Rightarrow> string \<Rightarrow> string \<Rightarrow> string" where
  "replace_first pat rep [] = (if pat = [] then rep else [])"
| "replace_first pat rep (c # cs) =
     (if prefix pat (c # cs) then rep @ drop (length pat) (c # cs)
      else c # replace_first pat rep cs)"

text \<open>
  The loop of \<^verbatim>\<open>buildPath\<close> over \<^verbatim>\<open>Object.entries(params)\<close>, in the order of the
  entries. The values of a \<^verbatim>\<open>PathParams\<close> object are strings, so \<^verbatim>\<open>String(value)\<close> is
  the value.
\<close>

definition substitute_params :: "string \<Rightarrow> (string \<times> string) list \<Rightarrow> string" where
  "substitute_params path entries =
     foldl (\<lambda>result (key, value).
              replace_first (CHR '':'' # key) (encodeURIComponent value) result)
       path entries"

text \<open>
  \<^verbatim>\<open>buildPath\<close> of route-registry.ts. The parameter object is given by its entries;
  \<^const>\<open>None\<close> stands for a value that fails the guard
  \<^verbatim>\<open>params && typeof params === "object"\<close>.
\<close>

definition buildPath :: "string \<Rightarrow> (string \<times> string) list option \<Rightarrow> string" where
  "buildPath path params =
     (let result = (case params of
                      Some entries \<Rightarrow> substitute_params path entries
                    | None \<Rightarrow> path)
      in if prefix ''/'' result then result else ''/'' @ result)"

text \<open>
  For every colon of a string, the text from after it up to the next slash or the end: the
  rest of its segment.
\<close>

fun colon_rests :: "string \<Rightarrow> string list" where
  "colon_rests [] = []"
| "colon_rests (c # cs) =
     (if c = CHR '':'' then takeWhile (\<lambda>x. x \<noteq> CHR ''/'') cs # colon_rests cs
      else colon_rests cs)"

text \<open>No segment has two colons: the rest of a segment after a colon has no further colon.\<close>

definition single_colon_segments :: "string \<Rightarrow> bool" where
  "single_colon_segments t = list_all (\<lambda>r. CHR '':'' \<notin> set r) (colon_rests t)"




section \<open>Validation: \<^verbatim>\<open>validateParams\<close>\<close>

text \<open>
  A call either returns a value or throws an error with a message.
\<close>

datatype 'a outcome = Returns 'a | Throws string

text \<open>
  A value of type \<^verbatim>\<open>unknown\<close>: \<^verbatim>\<open>undefined\<close>, \<^verbatim>\<open>null\<close>, or anything else. The candidate
  object is modelled by its property lookup: \<^verbatim>\<open>k in params\<close> is \<open>params k \<noteq> None\<close>, and
  \<^verbatim>\<open>params[k]\<close> is the value found.
\<close>

datatype 'a js_value = Undefined | Null | Value 'a

text \<open>The loop of \<^verbatim>\<open>validateParams\<close>, which returns false at the first failing name.\<close>

fun required_present :: "string list \<Rightarrow> (string \<rightharpoonup> 'a js_value) \<Rightarrow> bool" where
  "required_present [] params = True"
| "required_present (param # rest) params =
     (if params param = None \<or> params param = Some Undefined \<or> params param = Some Null
      then False
      else required_present rest params)"


section \<open>Single-parameter accessors\<close>

text \<open>
  The parameter map of a route snapshot is a partial map: \<^verbatim>\<open>paramMap.get(name)\<close> is the value
  or \<^verbatim>\<open>null\<close>. The message of the error the required accessors throw:
\<close>

definition missing_message :: "string \<Rightarrow> string" where
  "missing_message param =
     ''Required route parameter '' @ [CHR 0x22] @ param @ [CHR 0x22] @ '' is missing''"

text \<open>\<^verbatim>\<open>getTypedParam\<close> and \<^verbatim>\<open>getRequiredTypedParam\<close> of route-inputs.ts.\<close>

definition getTypedParam :: "(string \<rightharpoonup> string) \<Rightarrow> string \<Rightarrow> string option outcome" where
  "getTypedParam paramMap param = Returns (paramMap param)"

definition getRequiredTypedParam :: "(string \<rightharpoonup> string) \<Rightarrow> string \<Rightarrow> string outcome" where
  "getRequiredTypedParam paramMap param =
     (case paramMap param of
        None \<Rightarrow> Throws (missing_message param)
      | Some v \<Rightarrow> Returns v)"

text \<open>
  \<^verbatim>\<open>paramSnapshot\<close> and \<^verbatim>\<open>paramSnapshotRequired\<close> of typed-activated-route-service.ts, on
  the parameter map of the current snapshot.
\<close>

definition paramSnapshot :: "(string \<rightharpoonup> string) \<Rightarrow> string \<Rightarrow> string option outcome" where
  "paramSnapshot paramMap paramName = Returns (paramMap paramName)"

definition paramSnapshotRequired :: "(string \<rightharpoonup> string) \<Rightarrow> string \<Rightarrow> string outcome" where
  "paramSnapshotRequired paramMap paramName =
     (case paramMap paramName of
        None \<Rightarrow> Throws (missing_message paramName)
      | Some v \<Rightarrow> Returns v)"

section \<open>The route tree index: \<^verbatim>\<open>buildPathsMap\<close>\<close>

text \<open>The type-level \<^verbatim>\<open>JoinPath\<close> of route-types.ts, as a function on strings.\<close>

definition JoinPath :: "string \<Rightarrow> string \<Rightarrow> string" where
  "JoinPath a b = (if a = [] then b else if b = [] then a else a @ ''/'' @ b)"

text \<open>
  The full path as \<^verbatim>\<open>buildPathsMap\<close> computes it:
  \<^verbatim>\<open>prefix ? `${prefix}/${route.path}` : route.path\<close>.
\<close>

definition full_path :: "string \<Rightarrow> string \<Rightarrow> string" where
  "full_path pfx p = (if pfx \<noteq> [] then pfx @ ''/'' @ p else p)"

text \<open>\<^verbatim>\<open>.replace(/\/+/g, "/")\<close>: every run of slashes becomes one slash.\<close>

function collapse_slashes :: "string \<Rightarrow> string" where
  "collapse_slashes [] = []"
| "collapse_slashes (c # cs) =
     (if c = CHR ''/'' then CHR ''/'' # collapse_slashes (dropWhile (\<lambda>x. x = CHR ''/'') cs)
      else c # collapse_slashes cs)"
  by pat_completeness auto
termination
  by (relation "measure length") (auto simp: length_dropWhile_le less_Suc_eq_le)

text \<open>\<^verbatim>\<open>.replace(/^\//, "")\<close>: one leading slash is removed.\<close>

definition strip_leading_slash :: "string \<Rightarrow> string" where
  "strip_leading_slash s = (if prefix ''/'' s then drop 1 s else s)"

text \<open>
  \<^verbatim>\<open>result[key] = value\<close> on the object that the literal \<^verbatim>\<open>{}\<close> creates. The object is the
  map of its own properties. The key \<^verbatim>\<open>__proto__\<close> reaches the accessor that the object
  inherits from \<^verbatim>\<open>Object.prototype\<close>, whose setter ignores a value that is neither an object
  nor \<^verbatim>\<open>null\<close>: assigning a string to it creates no property. Every other key creates or
  overwrites an own property.
\<close>

definition object_set :: "(string \<rightharpoonup> 'v) \<Rightarrow> string \<Rightarrow> 'v \<Rightarrow> (string \<rightharpoonup> 'v)" where
  "object_set obj key v = (if key = ''__proto__'' then obj else obj(key \<mapsto> v))"

text \<open>
  A route node: an optional path and an optional list of children. The result object is passed
  in and returned updated, as the source mutates it.
\<close>

datatype Route = Route (route_path: "string option") (route_children: "Route list option")

fun buildPathsMap :: "Route list \<Rightarrow> string \<Rightarrow> (string \<rightharpoonup> string) \<Rightarrow> (string \<rightharpoonup> string)"
  and visit_route :: "Route \<Rightarrow> string \<Rightarrow> (string \<rightharpoonup> string) \<Rightarrow> (string \<rightharpoonup> string)" where
  "buildPathsMap [] pfx result = result"
| "buildPathsMap (route # routes) pfx result =
     buildPathsMap routes pfx (visit_route route pfx result)"
| "visit_route (Route None ch) pfx result = result"
| "visit_route (Route (Some p) ch) pfx result =
     (let fullPath = full_path pfx p;
          normalizedPath = strip_leading_slash (collapse_slashes fullPath);
          key = (if normalizedPath \<noteq> [] then normalizedPath else ''/'');
          result1 = (if normalizedPath \<noteq> [] \<or> pfx = [] then object_set result key key else result)
      in case ch of
           Some cs \<Rightarrow> buildPathsMap cs fullPath result1
         | None \<Rightarrow> result1)"

text \<open>
  The normalization as the specification words it: a slash that follows a slash is dropped
  (repeated slashes collapse into one), then a single leading slash is stripped.
\<close>

fun collapse_repeated :: "string \<Rightarrow> string" where
  "collapse_repeated (a # b # cs) =
     (if a = CHR ''/'' \<and> b = CHR ''/'' then collapse_repeated (b # cs)
      else a # collapse_repeated (b # cs))"
| "collapse_repeated cs = cs"

definition normalize_spec :: "string \<Rightarrow> string" where
  "normalize_spec s =
     (case collapse_repeated s of
        [] \<Rightarrow> []
      | c # cs \<Rightarrow> if c = CHR ''/'' then cs else c # cs)"

text \<open>
  The index as the specification words it: the set of paths registered for a list of nodes
  under a prefix. A node with a path registers its normalized full path, or the sentinel
  \<^verbatim>\<open>/\<close> when that is empty and the prefix is empty, and its children register theirs under
  the full path. The full path is joined as \<^verbatim>\<open>buildPathsMap\<close> joins it (\<^const>\<open>full_path\<close>).
\<close>

definition registered_key :: "string \<Rightarrow> string \<Rightarrow> string set" where
  "registered_key pfx fp =
     (let n = normalize_spec fp
      in if n \<noteq> [] then {n} else if pfx = [] then {''/''} else {})"

fun full_paths :: "Route list \<Rightarrow> string \<Rightarrow> string set"
  and full_paths_route :: "Route \<Rightarrow> string \<Rightarrow> string set" where
  "full_paths [] pfx = {}"
| "full_paths (route # routes) pfx = full_paths_route route pfx \<union> full_paths routes pfx"
| "full_paths_route (Route None ch) pfx = {}"
| "full_paths_route (Route (Some p) ch) pfx =
     registered_key pfx (full_path pfx p)
     \<union> (case ch of Some cs \<Rightarrow> full_paths cs (full_path pfx p) | None \<Rightarrow> {})"

section \<open>Building a URL: \<^verbatim>\<open>buildUrl\<close>\<close>

text \<open>
  A \<^verbatim>\<open>QueryParamValue\<close>: a string, a number, a boolean, an array of strings, \<^verbatim>\<open>null\<close> or
  \<^verbatim>\<open>undefined\<close>. The type of numbers and their conversion to a string are parameters.
\<close>

datatype 'n query_value =
  QString string | QNumber 'n | QBoolean bool | QArray "string list" | QNull | QUndefined

text \<open>
  \<^verbatim>\<open>URLSearchParams\<close> of the platform, after the URL standard: a list of name-value pairs.
  \<^verbatim>\<open>append\<close> adds a pair at the end; \<^verbatim>\<open>set\<close> overwrites the first pair of that name and
  removes the others, or appends when there is none.
\<close>

definition usp_append :: "string \<Rightarrow> string \<Rightarrow> (string \<times> string) list \<Rightarrow> (string \<times> string) list" where
  "usp_append name v l = l @ [(name, v)]"

fun usp_replace :: "string \<Rightarrow> string \<Rightarrow> (string \<times> string) list \<Rightarrow> (string \<times> string) list" where
  "usp_replace name v [] = []"
| "usp_replace name v (e # l) =
     (if fst e = name then (name, v) # filter (\<lambda>x. fst x \<noteq> name) l
      else e # usp_replace name v l)"

definition usp_set :: "string \<Rightarrow> string \<Rightarrow> (string \<times> string) list \<Rightarrow> (string \<times> string) list" where
  "usp_set name v l =
     (if name \<in> set (map fst l) then usp_replace name v l else l @ [(name, v)])"

text \<open>
  \<^verbatim>\<open>toString\<close> serializes the pairs as \<^verbatim>\<open>name=value\<close> joined by \<^verbatim>\<open>&\<close>; letters, digits and
  \<^verbatim>\<open>* - . _\<close> stay, a space becomes \<^verbatim>\<open>+\<close>, every other character is percent-encoded.
\<close>

definition form_encode_char :: "char \<Rightarrow> string" where
  "form_encode_char c =
     (if c = CHR '' '' then ''+''
      else if is_alnum c \<or> (of_char c :: nat) \<in> set [42, 45, 46, 95] then [c]
      else concat (map percent_byte (utf8_bytes c)))"

definition form_urlencode :: "string \<Rightarrow> string" where
  "form_urlencode s = concat (map form_encode_char s)"

fun join_with :: "string \<Rightarrow> string list \<Rightarrow> string" where
  "join_with sep [] = []"
| "join_with sep [s] = s"
| "join_with sep (s # ss) = s @ sep @ join_with sep ss"

definition usp_toString :: "(string \<times> string) list \<Rightarrow> string" where
  "usp_toString l =
     join_with ''&'' (map (\<lambda>(name, v). form_urlencode name @ ''='' @ form_urlencode v) l)"

text \<open>\<^verbatim>\<open>String(value)\<close> on a query parameter value.\<close>

definition js_String :: "('n \<Rightarrow> string) \<Rightarrow> 'n query_value \<Rightarrow> string" where
  "js_String num_to_string v =
     (case v of
        QString s \<Rightarrow> s
      | QNumber n \<Rightarrow> num_to_string n
      | QBoolean b \<Rightarrow> (if b then ''true'' else ''false'')
      | QArray vs \<Rightarrow> join_with '','' vs
      | QNull \<Rightarrow> ''null''
      | QUndefined \<Rightarrow> ''undefined'')"

text \<open>One round of the loop of \<^verbatim>\<open>buildUrl\<close> over \<^verbatim>\<open>Object.entries(queryParams)\<close>.\<close>

definition add_query_entry ::
  "('n \<Rightarrow> string) \<Rightarrow> (string \<times> string) list \<Rightarrow> string \<times> 'n query_value \<Rightarrow> (string \<times> string) list" where
  "add_query_entry num_to_string searchParams entry =
     (case entry of (key, v) \<Rightarrow>
        (case v of
           QNull \<Rightarrow> searchParams
         | QUndefined \<Rightarrow> searchParams
         | QArray vs \<Rightarrow> foldl (\<lambda>sp x. usp_append key x sp) searchParams vs
         | _ \<Rightarrow> usp_set key (js_String num_to_string v) searchParams))"

text \<open>The search parameters after the loop, which starts from an empty list.\<close>

definition query_params :: "('n \<Rightarrow> string) \<Rightarrow> (string \<times> 'n query_value) list \<Rightarrow> (string \<times> string) list" where
  "query_params num_to_string q = foldl (add_query_entry num_to_string) [] q"

text \<open>
  \<^verbatim>\<open>buildUrl\<close> of route-registry.ts; \<^const>\<open>None\<close> is an absent \<^verbatim>\<open>queryParams\<close>.
\<close>

definition buildUrl ::
  "('n \<Rightarrow> string) \<Rightarrow> string \<Rightarrow> (string \<times> string) list option
     \<Rightarrow> (string \<times> 'n query_value) list option \<Rightarrow> string" where
  "buildUrl num_to_string path params queryParams =
     (let url = buildPath path params
      in case queryParams of
           None \<Rightarrow> url
         | Some q \<Rightarrow>
             (let searchParams = query_params num_to_string q;
                  queryString = usp_toString searchParams
              in if queryString \<noteq> [] then url @ ''?'' @ queryString else url))"

text \<open>
  The query entries of one entry as the specification words them: none for \<^verbatim>\<open>null\<close> and
  \<^verbatim>\<open>undefined\<close>, one per element under the same key for an array, one with the string form
  for a scalar.
\<close>

definition query_entries_spec :: "('n \<Rightarrow> string) \<Rightarrow> string \<times> 'n query_value \<Rightarrow> (string \<times> string) list" where
  "query_entries_spec num_to_string entry =
     (case entry of (key, v) \<Rightarrow>
        (case v of
           QNull \<Rightarrow> []
         | QUndefined \<Rightarrow> []
         | QArray vs \<Rightarrow> map (Pair key) vs
         | _ \<Rightarrow> [(key, js_String num_to_string v)]))"

definition is_scalar :: "'n query_value \<Rightarrow> bool" where
  "is_scalar v = (case v of QString _ \<Rightarrow> True | QNumber _ \<Rightarrow> True | QBoolean _ \<Rightarrow> True | _ \<Rightarrow> False)"

section \<open>Matching the current URL: \<^verbatim>\<open>isActive\<close>\<close>

text \<open>
  \<^verbatim>\<open>path.replace(/:(\w+)/g, rep)\<close>: every match of the parameter-token expression is replaced.
  The replacement text used, \<^verbatim>\<open>[^/]+\<close>, has no dollar sign and is inserted as it is.
\<close>

function replace_all_params :: "string \<Rightarrow> string \<Rightarrow> string" where
  "replace_all_params rep [] = []"
| "replace_all_params rep (c # cs) =
     (if c = CHR '':'' \<and> takeWhile is_word cs \<noteq> []
      then rep @ replace_all_params rep (dropWhile is_word cs)
      else c # replace_all_params rep cs)"
  by pat_completeness auto
termination
  by (relation "measure (\<lambda>(rep, s). length s)") (auto simp: length_dropWhile_le less_Suc_eq_le)

text \<open>
  \<^verbatim>\<open>new RegExp(source)\<close> without flags and \<^verbatim>\<open>regex.test(s)\<close> are modelled after the
  ECMAScript specification, with the additional syntax of web browsers (Annex B), on code
  units below 256. \<^verbatim>\<open>new RegExp\<close> either compiles the source or throws a
  \<^verbatim>\<open>SyntaxError\<close>. The template reaches it unescaped, so its own characters are read as
  pattern syntax. Three constructs are left out, and a source that uses one of them is
  \<open>Unsupported\<close> (the model says nothing about it): a backslash followed by a digit other
  than a lone \<^verbatim>\<open>\0\<close> (back-references and octal escapes), named groups \<^verbatim>\<open>(?<name>...)\<close>,
  and groups with inline modifiers such as \<^verbatim>\<open>(?i:...)\<close>.
\<close>

datatype 'a regexp_result = Compiled 'a | SyntaxError | Unsupported

definition backslash :: char where
  "backslash = CHR 0x5C"

text \<open>The character sets of \<^verbatim>\<open>\d\<close>, hexadecimal digits, \<^verbatim>\<open>\s\<close> and the line terminators.\<close>

definition is_digit :: "char \<Rightarrow> bool" where
  "is_digit c = (let n = (of_char c :: nat) in 48 \<le> n \<and> n \<le> 57)"

definition is_hex_digit :: "char \<Rightarrow> bool" where
  "is_hex_digit c =
     (let n = (of_char c :: nat)
      in (48 \<le> n \<and> n \<le> 57) \<or> (65 \<le> n \<and> n \<le> 70) \<or> (97 \<le> n \<and> n \<le> 102))"

definition is_ascii_letter :: "char \<Rightarrow> bool" where
  "is_ascii_letter c =
     (let n = (of_char c :: nat) in (65 \<le> n \<and> n \<le> 90) \<or> (97 \<le> n \<and> n \<le> 122))"

definition is_space :: "char \<Rightarrow> bool" where
  "is_space c = (let n = (of_char c :: nat) in (9 \<le> n \<and> n \<le> 13) \<or> n = 32 \<or> n = 160)"

definition is_line_terminator :: "char \<Rightarrow> bool" where
  "is_line_terminator c = (c = CHR 0x0A \<or> c = CHR 0x0D)"

definition decimal_value :: "string \<Rightarrow> nat" where
  "decimal_value ds = foldl (\<lambda>a c. 10 * a + (of_char c - 48)) 0 ds"

definition hex_digit_value :: "char \<Rightarrow> nat" where
  "hex_digit_value c =
     (let n = (of_char c :: nat)
      in if n \<le> 57 then n - 48 else if n \<le> 70 then n - 55 else n - 87)"

definition hex_value :: "string \<Rightarrow> nat" where
  "hex_value ds = foldl (\<lambda>a c. 16 * a + hex_digit_value c) 0 ds"

text \<open>
  A compiled pattern is a disjunction: a list of alternatives, each a list of terms. A member
  of a character class is a range of code units or one of the escapes
  \<^verbatim>\<open>\d \D \w \W \s \S\<close>. A term is a code unit, the dot, a character class (negated or
  not), one of the assertions \<^verbatim>\<open>^ $ \b \B\<close>, a group (capturing or not: without
  back-references the two match alike), a lookahead or lookbehind (positive or negative), or
  a repetition with its bounds (greedy or lazy: \<^verbatim>\<open>test\<close> only asks whether a match exists).
\<close>

datatype class_item = ItemRange nat nat | ItemEscape char

datatype regex =
    CodeUnit nat
  | AnyChar
  | Class bool "class_item list"
  | LineStart
  | LineEnd
  | WordBoundary bool
  | Group "regex list list"
  | Look bool bool "regex list list"
  | Repeat nat "nat option" regex

definition escape_matches :: "char \<Rightarrow> char \<Rightarrow> bool" where
  "escape_matches e c =
     (if e = CHR ''d'' then is_digit c
      else if e = CHR ''D'' then \<not> is_digit c
      else if e = CHR ''w'' then is_word c
      else if e = CHR ''W'' then \<not> is_word c
      else if e = CHR ''s'' then is_space c
      else if e = CHR ''S'' then \<not> is_space c
      else False)"

fun item_matches :: "class_item \<Rightarrow> char \<Rightarrow> bool" where
  "item_matches (ItemRange lo hi) c = (lo \<le> of_char c \<and> (of_char c :: nat) \<le> hi)"
| "item_matches (ItemEscape e) c = escape_matches e c"

definition class_matches :: "bool \<Rightarrow> class_item list \<Rightarrow> char \<Rightarrow> bool" where
  "class_matches negated items c = (list_ex (\<lambda>it. item_matches it c) items \<noteq> negated)"

text \<open>
  Matching, as the matchers of the specification: a term is tried at an index \<open>i\<close> of the
  subject \<open>s\<close> with a continuation \<open>k\<close>, which receives the index where the term's match
  ends; the direction is forward, and backward inside a lookbehind. A term that consumes one
  character:
\<close>

definition char_step :: "(char \<Rightarrow> bool) \<Rightarrow> bool \<Rightarrow> string \<Rightarrow> nat \<Rightarrow> (nat \<Rightarrow> bool) \<Rightarrow> bool" where
  "char_step P forward s i k =
     (if forward then i < length s \<and> P (s ! i) \<and> k (Suc i)
      else 0 < i \<and> i \<le> length s \<and> P (s ! (i - 1)) \<and> k (i - 1))"

definition at_word_boundary :: "string \<Rightarrow> nat \<Rightarrow> bool" where
  "at_word_boundary s i =
     ((0 < i \<and> i \<le> length s \<and> is_word (s ! (i - 1))) \<noteq> (i < length s \<and> is_word (s ! i)))"

text \<open>
  The repetition of a term (\<^verbatim>\<open>RepeatMatcher\<close>): first the iterations that the minimum
  requires, then optional ones while the maximum allows. An optional iteration that ends where
  it started is rejected, so every optional iteration moves the index; the subject has
  \<open>length s\<close> characters, so \<open>length s\<close> optional iterations are all there can be, and that
  is the fuel.
\<close>

definition dec_max :: "nat option \<Rightarrow> nat option" where
  "dec_max hi = map_option (\<lambda>n. n - 1) hi"

primrec rep_opt ::
  "(nat \<Rightarrow> (nat \<Rightarrow> bool) \<Rightarrow> bool) \<Rightarrow> nat \<Rightarrow> nat option \<Rightarrow> nat \<Rightarrow> (nat \<Rightarrow> bool) \<Rightarrow> bool" where
  "rep_opt step 0 hi i k = k i"
| "rep_opt step (Suc fuel) hi i k =
     ((hi \<noteq> Some 0 \<and> step i (\<lambda>j. j \<noteq> i \<and> rep_opt step fuel (dec_max hi) j k)) \<or> k i)"

primrec rep_min ::
  "(nat \<Rightarrow> (nat \<Rightarrow> bool) \<Rightarrow> bool) \<Rightarrow> nat \<Rightarrow> nat option \<Rightarrow> nat \<Rightarrow> nat \<Rightarrow> (nat \<Rightarrow> bool) \<Rightarrow> bool" where
  "rep_min step 0 hi fuel i k = rep_opt step fuel hi i k"
| "rep_min step (Suc n) hi fuel i k = step i (\<lambda>j. rep_min step n (dec_max hi) fuel j k)"

fun match_term :: "regex \<Rightarrow> bool \<Rightarrow> string \<Rightarrow> nat \<Rightarrow> (nat \<Rightarrow> bool) \<Rightarrow> bool"
  and match_seq :: "regex list \<Rightarrow> bool \<Rightarrow> string \<Rightarrow> nat \<Rightarrow> (nat \<Rightarrow> bool) \<Rightarrow> bool"
  and match_disj :: "regex list list \<Rightarrow> bool \<Rightarrow> string \<Rightarrow> nat \<Rightarrow> (nat \<Rightarrow> bool) \<Rightarrow> bool" where
  "match_term (CodeUnit n) forward s i k = char_step (\<lambda>c. of_char c = n) forward s i k"
| "match_term AnyChar forward s i k = char_step (\<lambda>c. \<not> is_line_terminator c) forward s i k"
| "match_term (Class negated items) forward s i k = char_step (class_matches negated items) forward s i k"
| "match_term LineStart forward s i k = (i = 0 \<and> k i)"
| "match_term LineEnd forward s i k = (i = length s \<and> k i)"
| "match_term (WordBoundary negated) forward s i k = ((at_word_boundary s i \<noteq> negated) \<and> k i)"
| "match_term (Group d) forward s i k = match_disj d forward s i k"
| "match_term (Look ahead negated d) forward s i k = ((match_disj d ahead s i (\<lambda>j. True) \<noteq> negated) \<and> k i)"
| "match_term (Repeat lo hi r) forward s i k =
     rep_min (\<lambda>i' k'. match_term r forward s i' k') lo hi (length s) i k"
| "match_seq [] forward s i k = k i"
| "match_seq (r # rs) forward s i k =
     (if forward then match_term r forward s i (\<lambda>j. match_seq rs forward s j k)
      else match_seq rs forward s i (\<lambda>j. match_term r forward s j k))"
| "match_disj [] forward s i k = False"
| "match_disj (a # d) forward s i k = (match_seq a forward s i k \<or> match_disj d forward s i k)"

text \<open>
  \<^verbatim>\<open>regex.test(s)\<close> for a pattern without the global and sticky flags: a match is tried at
  every index from 0 to the length of \<open>s\<close>.
\<close>

definition regexp_test :: "regex list list \<Rightarrow> string \<Rightarrow> bool" where
  "regexp_test d s = list_ex (\<lambda>i. match_disj d True s i (\<lambda>j. True)) [0 ..< Suc (length s)]"

text \<open>
  The parser reads the source from left to right. Its state: the groups that are open (for
  each its kind, and the alternatives and the terms that came before it), the finished
  alternatives and the terms of the current alternative at the present depth, and whether
  the last term may take a quantifier (an atom or a lookahead may, an assertion, a lookbehind
  or an already quantified term may not).
\<close>

datatype group_kind = Capturing | NonCapturing | Lookaround bool bool

datatype parser =
  Parser (open_groups: "(group_kind \<times> regex list list \<times> regex list) list")
         (finished: "regex list list") (current: "regex list") (repeatable: bool)

definition add_term :: "regex \<Rightarrow> bool \<Rightarrow> parser \<Rightarrow> parser" where
  "add_term r q st = Parser (open_groups st) (finished st) (current st @ [r]) q"

text \<open>
  A quantifier applies to the last term; with nothing to repeat, or with bounds out of order,
  it is a \<^verbatim>\<open>SyntaxError\<close>. A question mark after a quantifier makes it lazy.
\<close>

definition quantify :: "nat \<Rightarrow> nat option \<Rightarrow> parser \<Rightarrow> parser regexp_result" where
  "quantify lo hi st =
     (if \<not> repeatable st \<or> current st = [] then SyntaxError
      else if (case hi of Some h \<Rightarrow> h < lo | None \<Rightarrow> False) then SyntaxError
      else Compiled (Parser (open_groups st) (finished st)
             (butlast (current st) @ [Repeat lo hi (last (current st))]) False))"

definition lazy_mark :: "string \<Rightarrow> nat" where
  "lazy_mark cs = (if prefix ''?'' cs then 1 else 0)"

definition with_lazy :: "parser regexp_result \<Rightarrow> string \<Rightarrow> (parser \<times> nat) regexp_result" where
  "with_lazy r cs = map_regexp_result (\<lambda>st. (st, lazy_mark cs)) r"

text \<open>
  What follows an opening brace: \<^verbatim>\<open>n}\<close>, \<^verbatim>\<open>n,}\<close> or \<^verbatim>\<open>n,m}\<close> make a quantifier (the
  bounds and the number of characters read are returned); anything else leaves the brace a
  literal character.
\<close>

definition parse_braces :: "string \<Rightarrow> (nat \<times> nat option \<times> nat) option" where
  "parse_braces cs =
     (let ds1 = takeWhile is_digit cs
      in if ds1 = [] then None
         else case dropWhile is_digit cs of
             [] \<Rightarrow> None
           | x # r2 \<Rightarrow>
               if x = CHR ''}''
               then Some (decimal_value ds1, Some (decimal_value ds1), Suc (length ds1))
               else if x = CHR '',''
               then (let ds2 = takeWhile is_digit r2
                     in case dropWhile is_digit r2 of
                          [] \<Rightarrow> None
                        | y # r3 \<Rightarrow>
                            if y = CHR ''}''
                            then Some (decimal_value ds1,
                                       if ds2 = [] then None else Some (decimal_value ds2),
                                       length ds1 + length ds2 + 2)
                            else None)
               else None)"

text \<open>
  Escapes that stand for one code unit, after the backslash: \<^verbatim>\<open>\0\<close>, the control escapes
  \<^verbatim>\<open>\t \n \v \f \r\<close>, \<^verbatim>\<open>\xHH\<close>, \<^verbatim>\<open>\uHHHH\<close>, and the identity escape of any other
  character (also of \<^verbatim>\<open>x\<close> and \<^verbatim>\<open>u\<close> without their digits). The result is the code unit
  and the number of characters read. A digit other than a lone zero is left out.
\<close>

definition control_escape :: "char \<Rightarrow> nat option" where
  "control_escape e =
     (if e = CHR ''t'' then Some 9 else if e = CHR ''n'' then Some 10
      else if e = CHR ''v'' then Some 11 else if e = CHR ''f'' then Some 12
      else if e = CHR ''r'' then Some 13 else None)"

definition hex_escape :: "nat \<Rightarrow> string \<Rightarrow> nat option" where
  "hex_escape n es =
     (if n \<le> length es \<and> list_all is_hex_digit (take n es) then Some (hex_value (take n es))
      else None)"

definition char_escape :: "char \<Rightarrow> string \<Rightarrow> (nat \<times> nat) regexp_result" where
  "char_escape e es =
     (if e = CHR ''0'' then (if es \<noteq> [] \<and> is_digit (hd es) then Unsupported else Compiled (0, 1))
      else if is_digit e then Unsupported
      else case control_escape e of
          Some n \<Rightarrow> Compiled (n, 1)
        | None \<Rightarrow>
            if e = CHR ''x'' then
              (case hex_escape 2 es of Some n \<Rightarrow> Compiled (n, 3) | None \<Rightarrow> Compiled (of_char e, 1))
            else if e = CHR ''u'' then
              (case hex_escape 4 es of Some n \<Rightarrow> Compiled (n, 5) | None \<Rightarrow> Compiled (of_char e, 1))
            else Compiled (of_char e, 1))"

definition is_class_escape :: "char \<Rightarrow> bool" where
  "is_class_escape e = (e \<in> set ''dDwWsS'')"

text \<open>
  A backslash outside a character class, from the character after it: at the end of the
  source a \<^verbatim>\<open>SyntaxError\<close>; the assertions \<^verbatim>\<open>\b\<close> and \<^verbatim>\<open>\B\<close>; a class escape;
  \<^verbatim>\<open>\c\<close> with a letter, a control character, and without one the backslash itself (the
  \<^verbatim>\<open>c\<close> is read next); otherwise a character escape. The result is the term, whether it
  may take a quantifier, and the number of characters read after the backslash.
\<close>

definition parse_escape :: "string \<Rightarrow> (regex \<times> bool \<times> nat) regexp_result" where
  "parse_escape cs =
     (case cs of
        [] \<Rightarrow> SyntaxError
      | e # es \<Rightarrow>
          if e = CHR ''b'' then Compiled (WordBoundary False, False, 1)
          else if e = CHR ''B'' then Compiled (WordBoundary True, False, 1)
          else if is_class_escape e then Compiled (Class False [ItemEscape e], True, 1)
          else if e = CHR ''c'' then
            (if es \<noteq> [] \<and> is_ascii_letter (hd es)
             then Compiled (CodeUnit (of_char (hd es) mod 32), True, 2)
             else Compiled (CodeUnit 92, True, 0))
          else map_regexp_result (\<lambda>(n, k). (CodeUnit n, True, k)) (char_escape e es))"

text \<open>
  Inside a character class: an atom is a character or an escape (\<^verbatim>\<open>\b\<close> is the backspace,
  \<^verbatim>\<open>\c\<close> also takes a digit or an underscore). Two atoms around a hyphen make a range; a
  range whose ends are out of order is a \<^verbatim>\<open>SyntaxError\<close>, and when an end is a class
  escape the hyphen is a member like the two ends.
\<close>

datatype class_atom = AtomUnit nat | AtomEscape char

fun atom_item :: "class_atom \<Rightarrow> class_item" where
  "atom_item (AtomUnit n) = ItemRange n n"
| "atom_item (AtomEscape e) = ItemEscape e"

fun class_range :: "class_atom \<Rightarrow> class_atom \<Rightarrow> class_item list option" where
  "class_range (AtomUnit x) (AtomUnit y) = (if x \<le> y then Some [ItemRange x y] else None)"
| "class_range a b = Some [atom_item a, ItemRange 45 45, atom_item b]"

definition parse_class_atom :: "char \<Rightarrow> string \<Rightarrow> (class_atom \<times> nat) regexp_result" where
  "parse_class_atom c cs =
     (if c \<noteq> backslash then Compiled (AtomUnit (of_char c), 0)
      else case cs of
          [] \<Rightarrow> SyntaxError
        | e # es \<Rightarrow>
            if e = CHR ''b'' then Compiled (AtomUnit 8, 1)
            else if is_class_escape e then Compiled (AtomEscape e, 1)
            else if e = CHR ''c'' then
              (if es \<noteq> [] \<and> (is_ascii_letter (hd es) \<or> is_digit (hd es) \<or> hd es = CHR ''_'')
               then Compiled (AtomUnit (of_char (hd es) mod 32), 2)
               else Compiled (AtomUnit 92, 0))
            else map_regexp_result (\<lambda>(n, k). (AtomUnit n, k)) (char_escape e es))"

definition range_follows :: "string \<Rightarrow> bool" where
  "range_follows rest =
     (case rest of
        d # e # es \<Rightarrow> d = CHR ''-'' \<and> e \<noteq> CHR '']''
      | _ \<Rightarrow> False)"

text \<open>
  The members of a class up to the closing bracket, with the number of characters read; a
  class that is not closed is a \<^verbatim>\<open>SyntaxError\<close>.
\<close>

function class_items ::
  "string \<Rightarrow> class_item list \<Rightarrow> nat \<Rightarrow> (class_item list \<times> nat) regexp_result" where
  "class_items [] acc n = SyntaxError"
| "class_items (c # cs) acc n =
     (if c = CHR '']'' then Compiled (acc, Suc n)
      else case parse_class_atom c cs of
          SyntaxError \<Rightarrow> SyntaxError
        | Unsupported \<Rightarrow> Unsupported
        | Compiled (a, k) \<Rightarrow>
            if range_follows (drop k cs) then
              (case parse_class_atom (cs ! Suc k) (drop (k + 2) cs) of
                 SyntaxError \<Rightarrow> SyntaxError
               | Unsupported \<Rightarrow> Unsupported
               | Compiled (b, k2) \<Rightarrow>
                   (case class_range a b of
                      None \<Rightarrow> SyntaxError
                    | Some items \<Rightarrow>
                        class_items (drop (k + 2 + k2) cs) (acc @ items) (n + k + k2 + 3)))
            else class_items (drop k cs) (acc @ [atom_item a]) (Suc (n + k)))"
  by pat_completeness auto
termination
  by (relation "measure (\<lambda>(s, acc, n). length s)") auto

definition parse_class :: "string \<Rightarrow> (regex \<times> nat) regexp_result" where
  "parse_class cs =
     (if prefix ''^'' cs
      then map_regexp_result (\<lambda>(items, n). (Class True items, n)) (class_items (drop 1 cs) [] 1)
      else map_regexp_result (\<lambda>(items, n). (Class False items, n)) (class_items cs [] 0))"

text \<open>
  What follows an opening parenthesis: \<^verbatim>\<open>?:\<close> opens a group that does not capture,
  \<^verbatim>\<open>?=\<close> and \<^verbatim>\<open>?!\<close> a lookahead, \<^verbatim>\<open>?<=\<close> and \<^verbatim>\<open>?<!\<close> a lookbehind; a named group and
  inline modifiers are left out; any other use of \<^verbatim>\<open>(?\<close> is a \<^verbatim>\<open>SyntaxError\<close>.
\<close>

definition parse_group_open :: "string \<Rightarrow> (group_kind \<times> nat) regexp_result" where
  "parse_group_open cs =
     (if \<not> prefix ''?'' cs then Compiled (Capturing, 0)
      else case drop 1 cs of
          [] \<Rightarrow> SyntaxError
        | x # r \<Rightarrow>
            if x = CHR '':'' then Compiled (NonCapturing, 2)
            else if x = CHR ''='' then Compiled (Lookaround True False, 2)
            else if x = CHR ''!'' then Compiled (Lookaround True True, 2)
            else if x = CHR ''<'' then
              (if prefix ''='' r then Compiled (Lookaround False False, 3)
               else if prefix ''!'' r then Compiled (Lookaround False True, 3)
               else Unsupported)
            else if x \<in> set ''ims-'' then Unsupported
            else SyntaxError)"

fun close_group :: "group_kind \<Rightarrow> regex list list \<Rightarrow> regex" where
  "close_group (Lookaround ahead negated) d = Look ahead negated d"
| "close_group kind d = Group d"

fun group_repeatable :: "group_kind \<Rightarrow> bool" where
  "group_repeatable (Lookaround ahead negated) = ahead"
| "group_repeatable kind = True"

text \<open>
  One step of the parser on the character \<open>c\<close> followed by \<open>cs\<close>: the new state and the
  number of characters of \<open>cs\<close> that the step has read as well. A closing bracket or brace
  and an opening brace that starts no quantifier are literal characters.
\<close>

definition parse_step :: "parser \<Rightarrow> char \<Rightarrow> string \<Rightarrow> (parser \<times> nat) regexp_result" where
  "parse_step st c cs =
     (if c = CHR ''|'' then
        Compiled (Parser (open_groups st) (finished st @ [current st]) [] False, 0)
      else if c = CHR ''('' then
        map_regexp_result
          (\<lambda>(kind, n). (Parser ((kind, finished st, current st) # open_groups st) [] [] False, n))
          (parse_group_open cs)
      else if c = CHR '')'' then
        (case open_groups st of
           [] \<Rightarrow> SyntaxError
         | (kind, outer_finished, outer_current) # groups \<Rightarrow>
             Compiled (Parser groups outer_finished
                         (outer_current @ [close_group kind (finished st @ [current st])])
                         (group_repeatable kind), 0))
      else if c = CHR ''*'' then with_lazy (quantify 0 None st) cs
      else if c = CHR ''+'' then with_lazy (quantify 1 None st) cs
      else if c = CHR ''?'' then with_lazy (quantify 0 (Some 1) st) cs
      else if c = CHR ''{'' then
        (case parse_braces cs of
           Some (lo, hi, n) \<Rightarrow>
             map_regexp_result (\<lambda>st'. (st', n + lazy_mark (drop n cs))) (quantify lo hi st)
         | None \<Rightarrow> Compiled (add_term (CodeUnit (of_char c)) True st, 0))
      else if c = CHR ''^'' then Compiled (add_term LineStart False st, 0)
      else if c = CHR ''$'' then Compiled (add_term LineEnd False st, 0)
      else if c = CHR ''.'' then Compiled (add_term AnyChar True st, 0)
      else if c = CHR ''['' then
        map_regexp_result (\<lambda>(r, n). (add_term r True st, n)) (parse_class cs)
      else if c = backslash then
        map_regexp_result (\<lambda>(r, q, n). (add_term r q st, n)) (parse_escape cs)
      else Compiled (add_term (CodeUnit (of_char c)) True st, 0))"

text \<open>At the end of the source a group that is still open is a \<^verbatim>\<open>SyntaxError\<close>.\<close>

function parse_loop :: "parser \<Rightarrow> string \<Rightarrow> regex list list regexp_result" where
  "parse_loop st [] =
     (if open_groups st = [] then Compiled (finished st @ [current st]) else SyntaxError)"
| "parse_loop st (c # cs) =
     (case parse_step st c cs of
        Compiled (st', n) \<Rightarrow> parse_loop st' (drop n cs)
      | SyntaxError \<Rightarrow> SyntaxError
      | Unsupported \<Rightarrow> Unsupported)"
  by pat_completeness auto
termination
  by (relation "measure (\<lambda>(st, s). length s)") auto

definition compile_regex :: "string \<Rightarrow> regex list list regexp_result" where
  "compile_regex src = parse_loop (Parser [] [] [] False) src"

text \<open>
  \<^verbatim>\<open>TypedRouterService.isActive\<close>; the current URL \<^verbatim>\<open>this.router.url\<close> is the first
  argument.
\<close>

definition isActive :: "string \<Rightarrow> string \<Rightarrow> bool \<Rightarrow> bool regexp_result" where
  "isActive router_url path exact =
     (let pattern = ''/'' @ replace_all_params ''[^/]+'' path;
          regex = compile_regex (if exact then ''^'' @ pattern @ ''$'' else ''^'' @ pattern)
      in case regex of
           Compiled r \<Rightarrow>
             (let currentPath = hd (split_on CHR ''#'' (hd (split_on CHR ''?'' router_url)))
              in Compiled (regexp_test r currentPath))
         | SyntaxError \<Rightarrow> SyntaxError
         | Unsupported \<Rightarrow> Unsupported)"

text \<open>
  The specification's reading of the pattern of a template: a wildcard for each parameter
  token and a literal for every other character. \<open>matches\<close> tells whether such a pattern
  matches a prefix of a text, or all of it when it is anchored at the end; the wildcard takes
  one or more characters other than a slash.
\<close>

datatype pat_elem = Lit char | NonSlashPlus

fun matches :: "pat_elem list \<Rightarrow> bool \<Rightarrow> string \<Rightarrow> bool" where
  "matches [] anchored s = (if anchored then s = [] else True)"
| "matches (Lit c # es) anchored [] = False"
| "matches (Lit c # es) anchored (x # xs) = (x = c \<and> matches es anchored xs)"
| "matches (NonSlashPlus # es) anchored [] = False"
| "matches (NonSlashPlus # es) anchored (x # xs) =
     (x \<noteq> CHR ''/'' \<and> (matches (NonSlashPlus # es) anchored xs \<or> matches es anchored xs))"

function pattern_elems :: "string \<Rightarrow> pat_elem list" where
  "pattern_elems [] = []"
| "pattern_elems (c # cs) =
     (if c = CHR '':'' \<and> takeWhile is_word cs \<noteq> []
      then NonSlashPlus # pattern_elems (dropWhile is_word cs)
      else Lit c # pattern_elems cs)"
  by pat_completeness auto
termination
  by (relation "measure length") (auto simp: length_dropWhile_le less_Suc_eq_le)

text \<open>The compiled term of an element of such a pattern.\<close>

fun elem_regex :: "pat_elem \<Rightarrow> regex" where
  "elem_regex (Lit c) = CodeUnit (of_char c)"
| "elem_regex NonSlashPlus = Repeat 1 None (Class True [ItemRange 47 47])"

text \<open>
  A template without the characters that a pattern reads as syntax wherever they stand:
  \<^verbatim>\<open>^ $ . * + ? ( ) [ { |\<close> and the backslash. (A closing bracket or brace outside a
  class or quantifier is a literal character.)
\<close>

definition is_syntax_char :: "char \<Rightarrow> bool" where
  "is_syntax_char c = (c \<in> set ''^$.*+?()[{|'' \<or> c = backslash)"

definition regex_plain :: "string \<Rightarrow> bool" where
  "regex_plain t = list_all (\<lambda>c. \<not> is_syntax_char c) t"






section \<open>Properties of the parameter-name extraction\<close>

lemma not_word_slash [simp]: "\<not> is_word CHR ''/''"
  by (simp add: is_word_def)

lemma not_word_colon [simp]: "\<not> is_word CHR '':''"
  by (simp add: is_word_def)

lemma takeWhile_word_slash:
  "takeWhile is_word (cs @ CHR ''/'' # rest) = takeWhile is_word cs"
  by (induction cs) auto

lemma dropWhile_word_slash:
  "dropWhile is_word (cs @ CHR ''/'' # rest) = dropWhile is_word cs @ CHR ''/'' # rest"
  by (induction cs) auto

lemma match_all_params_slash:
  "match_all_params (s @ CHR ''/'' # rest) = match_all_params s @ match_all_params rest"
proof (induction s rule: match_all_params.induct)
  case 1
  show ?case by simp
next
  case (2 c cs)
  then show ?case
    by (simp add: takeWhile_word_slash dropWhile_word_slash)
qed

lemma split_on_nonempty [simp]: "split_on sep t \<noteq> []"
  by (induction t) (auto simp: Let_def)

lemma join_slash_Cons: "ss \<noteq> [] \<Longrightarrow> join_slash (s # ss) = s @ CHR ''/'' # join_slash ss"
  by (cases ss) auto

lemma join_slash_split_on: "join_slash (split_on CHR ''/'' t) = t"
proof (induction t)
  case Nil
  show ?case by simp
next
  case (Cons x xs)
  obtain s ss where r: "split_on CHR ''/'' xs = s # ss"
    by (cases "split_on CHR ''/'' xs") auto
  show ?case
  proof (cases "x = CHR ''/''")
    case True
    with Cons r show ?thesis by (simp add: join_slash_Cons)
  next
    case False
    with Cons r show ?thesis by (cases ss) auto
  qed
qed

lemma match_all_params_join:
  "segs \<noteq> [] \<Longrightarrow> match_all_params (join_slash segs) = concat (map match_all_params segs)"
  by (induction segs rule: join_slash.induct) (auto simp: match_all_params_slash)

lemma match_all_params_segments:
  "match_all_params t = concat (map match_all_params (split_on CHR ''/'' t))"
  using match_all_params_join [of "split_on CHR ''/'' t"] by (simp add: join_slash_split_on)

lemma getParamNames_matches: "getParamNames t = map (drop 1) (match_all_params t)"
  by (simp add: getParamNames_def js_match_params_def Let_def)

lemma match_all_params_no_colon: "CHR '':'' \<notin> set s \<Longrightarrow> match_all_params s = []"
  by (induction s rule: match_all_params.induct) auto

lemma match_all_params_name:
  assumes "name \<noteq> []" and "list_all is_word name"
  shows "match_all_params (CHR '':'' # name) = [CHR '':'' # name]"
proof -
  from assms(2) have tw: "takeWhile is_word name = name" and dw: "dropWhile is_word name = []"
    by (simp_all add: list_all_iff)
  show ?thesis
    by (subst match_all_params.simps) (simp add: tw dw assms(1))
qed

lemma plain_segment_names:
  "plain_segment s \<Longrightarrow>
     map (drop 1) (match_all_params s) = (if s \<noteq> [] \<and> hd s = CHR '':'' then [tl s] else [])"
proof (cases s)
  case Nil
  then show ?thesis by simp
next
  case (Cons c name)
  assume ok: "plain_segment s"
  show ?thesis
  proof (cases "c = CHR '':''")
    case True
    with ok Cons have "name \<noteq> []" and "list_all is_word name"
      by (simp_all add: plain_segment_def)
    then have "match_all_params (CHR '':'' # name) = [CHR '':'' # name]"
      by (rule match_all_params_name)
    with True Cons show ?thesis by simp
  next
    case False
    with ok Cons have "CHR '':'' \<notin> set s"
      by (simp add: plain_segment_def)
    then have "match_all_params s = []"
      by (rule match_all_params_no_colon)
    with False Cons show ?thesis by simp
  qed
qed

lemma plain_segments_names:
  "list_all plain_segment segs \<Longrightarrow>
     concat (map (\<lambda>s. map (drop 1) (match_all_params s)) segs)
       = map tl (filter (\<lambda>s. s \<noteq> [] \<and> hd s = CHR '':'') segs)"
proof (induction segs)
  case Nil
  show ?case by simp
next
  case (Cons s segs)
  then have "plain_segment s" and rest: "list_all plain_segment segs"
    by simp_all
  from plain_segment_names [OF this(1)] Cons.IH [OF rest] show ?case
    by simp
qed

lemma names_nonempty: "[] \<notin> set (map (drop 1) (match_all_params t))"
  by (induction t rule: match_all_params.induct) auto

lemma split_on_first:
  "CHR ''/'' \<in> set path \<Longrightarrow>
     split_on CHR ''/'' path
       = takeWhile (\<lambda>c. c \<noteq> CHR ''/'') path
           # split_on CHR ''/'' (drop 1 (dropWhile (\<lambda>c. c \<noteq> CHR ''/'') path))"
proof (induction path)
  case Nil
  then show ?case by simp
next
  case (Cons x xs)
  show ?case
  proof (cases "x = CHR ''/''")
    case True
    then show ?thesis by simp
  next
    case False
    with Cons.prems have "CHR ''/'' \<in> set xs" by simp
    from Cons.IH [OF this] False show ?thesis by (simp add: Let_def)
  qed
qed

lemma split_on_single: "CHR ''/'' \<notin> set path \<Longrightarrow> split_on CHR ''/'' path = [path]"
  by (induction path) (auto simp: Let_def)

lemma ExtractParamFromSegment_spec:
  "ExtractParamFromSegment s = set (map tl (filter (\<lambda>s. s \<noteq> [] \<and> hd s = CHR '':'') [s]))"
  by (cases s) (auto simp: ExtractParamFromSegment_def)

text \<open>
  The type-level extraction yields exactly the names of the split-based wording of the
  specification.
\<close>

lemma ExtractPathParams_split_on:
  "ExtractPathParams t = set (extractParameterNames_spec t)"
proof (induction t rule: ExtractPathParams.induct)
  case (1 path)
  show ?case
  proof (cases "CHR ''/'' \<in> set path")
    case True
    from "1.IH" [OF True]
    have ih: "ExtractPathParams (drop 1 (dropWhile (\<lambda>c. c \<noteq> CHR ''/'') path))
          = set (extractParameterNames_spec (drop 1 (dropWhile (\<lambda>c. c \<noteq> CHR ''/'') path)))" .
    have "ExtractPathParams path
            = ExtractParamFromSegment (takeWhile (\<lambda>c. c \<noteq> CHR ''/'') path)
              \<union> ExtractPathParams (drop 1 (dropWhile (\<lambda>c. c \<noteq> CHR ''/'') path))"
      using True by (subst ExtractPathParams.simps) simp
    then show ?thesis
      unfolding ih ExtractParamFromSegment_spec extractParameterNames_spec_def
        split_on_first [OF True]
      by auto
  next
    case False
    have "ExtractPathParams path = ExtractParamFromSegment path"
      using False by (subst ExtractPathParams.simps) simp
    then show ?thesis
      unfolding ExtractParamFromSegment_spec extractParameterNames_spec_def
        split_on_single [OF False]
      by simp
  qed
qed
text \<open>
  On a template each of whose \<^verbatim>\<open>/\<close>-separated segments either contains no colon or is a
  colon followed by one or more word characters and nothing else, the runtime extraction
  \<^verbatim>\<open>getParamNames\<close> agrees with the split-based wording.
\<close>

lemma getParamNames_split_on_plain:
  "plain_template t \<Longrightarrow> getParamNames t = extractParameterNames_spec t"
proof -
  assume "plain_template t"
  then have ok: "list_all plain_segment (split_on CHR ''/'' t)"
    by (simp add: plain_template_def)
  have "getParamNames t
          = concat (map (\<lambda>s. map (drop 1) (match_all_params s)) (split_on CHR ''/'' t))"
    by (subst getParamNames_matches, subst match_all_params_segments)
       (simp add: map_concat comp_def)
  with plain_segments_names [OF ok] show ?thesis
    by (simp add: extractParameterNames_spec_def)
qed

lemma getParamNames_example:
  "plain_template ''users/:userId/posts/:postId''
   \<and> getParamNames ''users/:userId/posts/:postId'' = [''userId'', ''postId'']"
proof -
  have ok: "plain_template ''users/:userId/posts/:postId''"
    by (simp add: plain_template_def plain_segment_def is_word_def)
  have "extractParameterNames_spec ''users/:userId/posts/:postId'' = [''userId'', ''postId'']"
    by (simp add: extractParameterNames_spec_def)
  with ok getParamNames_split_on_plain [OF ok] show ?thesis
    by simp
qed

text \<open>
  Claim C3. The runtime extraction does not split the template on \<^verbatim>\<open>/\<close>: it scans for
  \<^verbatim>\<open>/:(\w+)/g\<close>. On the template \<^verbatim>\<open>:a-b\<close> it stops at the first character that is not a
  word character and yields the name \<^verbatim>\<open>a\<close>, where the remainder of the segment, which the
  claim describes and the type-level \<^verbatim>\<open>ExtractPathParams\<close> of the same library yields, is
  \<^verbatim>\<open>a-b\<close>.
\<close>

theorem getParamNames_hyphen_segment:
  "getParamNames '':a-b'' = [''a'']
   \<and> ExtractPathParams '':a-b'' = {''a-b''}
   \<and> extractParameterNames_spec '':a-b'' = [''a-b'']"
  by (simp add: getParamNames_def js_match_params_def extractParameterNames_spec_def is_word_def
        ExtractPathParams.simps ExtractParamFromSegment_def)

text \<open>
  The runtime extraction never yields an empty name: the names of a template are the names
  found in its \<^verbatim>\<open>/\<close>-separated segments, in order, and a segment that is exactly a colon
  contributes none.
\<close>

lemma getParamNames_no_empty_name:
  "[] \<notin> set (getParamNames t)
   \<and> getParamNames t = concat (map getParamNames (split_on CHR ''/'' t))
   \<and> getParamNames '':'' = []"
proof -
  have "[] \<notin> set (getParamNames t)"
    unfolding getParamNames_matches by (rule names_nonempty)
  moreover have "getParamNames t = concat (map getParamNames (split_on CHR ''/'' t))"
  proof -
    have "getParamNames = (\<lambda>s. map (drop 1) (match_all_params s))"
      by (rule ext) (rule getParamNames_matches)
    then show ?thesis
      by (subst getParamNames_matches, subst match_all_params_segments)
         (simp add: map_concat comp_def)
  qed
  moreover have "getParamNames '':'' = []"
    by (simp add: getParamNames_matches)
  ultimately show ?thesis by simp
qed

text \<open>
  Claim C4. The template \<^verbatim>\<open>a/:/b\<close> has a segment that is exactly a colon. The claim and the
  type-level \<^verbatim>\<open>ExtractPathParams\<close> report the empty name for it; the runtime extraction
  returns no name at all, because \<^verbatim>\<open>\w+\<close> needs a word character after the colon.
\<close>

theorem getParamNames_bare_colon_segment:
  "getParamNames ''a/:/b'' = []
   \<and> ExtractPathParams ''a/:/b'' = {[]}
   \<and> extractParameterNames_spec ''a/:/b'' = [[]]"
  by (simp add: getParamNames_def js_match_params_def extractParameterNames_spec_def is_word_def
        ExtractPathParams.simps ExtractParamFromSegment_def)

section \<open>Properties of \<^verbatim>\<open>buildPath\<close>\<close>


























text \<open>
  The hypothesis \<open>single_colon_segments\<close> says exactly that every segment of the template, as
  cut at the slashes, has at most one colon.
\<close>

lemma takeWhile_seg_slash:
  "takeWhile (\<lambda>x. x \<noteq> CHR ''/'') (cs @ CHR ''/'' # rest) = takeWhile (\<lambda>x. x \<noteq> CHR ''/'') cs"
  by (induction cs) auto

lemma colon_rests_slash:
  "colon_rests (s @ CHR ''/'' # rest) = colon_rests s @ colon_rests rest"
  by (induction s) (auto simp: takeWhile_seg_slash)

lemma colon_rests_join:
  "segs \<noteq> [] \<Longrightarrow> colon_rests (join_slash segs) = concat (map colon_rests segs)"
  by (induction segs rule: join_slash.induct) (auto simp: colon_rests_slash)

lemma colon_rests_segments:
  "colon_rests t = concat (map colon_rests (split_on CHR ''/'' t))"
  using colon_rests_join [of "split_on CHR ''/'' t"] by (simp add: join_slash_split_on)

lemma split_on_no_sep: "seg \<in> set (split_on sep t) \<Longrightarrow> sep \<notin> set seg"
proof (induction t arbitrary: seg)
  case Nil
  then show ?case by simp
next
  case (Cons x xs)
  obtain s ss where r: "split_on sep xs = s # ss"
    by (cases "split_on sep xs") auto
  from Cons.IH r have s: "sep \<notin> set s" and ss: "\<forall>y\<in>set ss. sep \<notin> set y"
    by auto
  from Cons.prems r s ss show ?case
    by (auto simp: Let_def split: if_splits)
qed

lemma colon_rests_none: "CHR '':'' \<notin> set cs \<Longrightarrow> colon_rests cs = []"
  by (induction cs) auto

lemma colon_rests_single:
  "CHR ''/'' \<notin> set seg \<Longrightarrow>
     list_all (\<lambda>r. CHR '':'' \<notin> set r) (colon_rests seg)
       = (length (filter (\<lambda>c. c = CHR '':'') seg) \<le> 1)"
proof (induction seg)
  case Nil
  show ?case by simp
next
  case (Cons c cs)
  then have ih: "list_all (\<lambda>r. CHR '':'' \<notin> set r) (colon_rests cs)
       = (length (filter (\<lambda>c. c = CHR '':'') cs) \<le> 1)"
    by simp
  from Cons.prems have "\<forall>x\<in>set cs. x \<noteq> CHR ''/''" by auto
  then have whole: "takeWhile (\<lambda>x. x \<noteq> CHR ''/'') cs = cs"
    by (simp add: takeWhile_eq_all_conv)
  show ?case
  proof (cases "c = CHR '':''")
    case True
    then have rests: "colon_rests (c # cs) = cs # colon_rests cs"
      by (simp add: whole)
    have count: "(length (filter (\<lambda>c. c = CHR '':'') (c # cs)) \<le> 1) = (CHR '':'' \<notin> set cs)"
      using True by (auto simp add: filter_empty_conv)
    show ?thesis
    proof (cases "CHR '':'' \<in> set cs")
      case True
      then show ?thesis by (simp only: rests count) simp
    next
      case False
      then have "colon_rests cs = []" by (rule colon_rests_none)
      with False show ?thesis by (simp only: rests count) simp
    qed
  next
    case False
    with ih show ?thesis by simp
  qed
qed

lemma single_colon_segments_iff:
  "single_colon_segments t
     = list_all (\<lambda>seg. length (filter (\<lambda>c. c = CHR '':'') seg) \<le> 1) (split_on CHR ''/'' t)"
proof -
  have "single_colon_segments t
          = list_all (\<lambda>seg. list_all (\<lambda>r. CHR '':'' \<notin> set r) (colon_rests seg))
              (split_on CHR ''/'' t)"
    unfolding single_colon_segments_def
    by (subst colon_rests_segments) (simp add: list_all_iff)
  also have "\<dots> = list_all (\<lambda>seg. length (filter (\<lambda>c. c = CHR '':'') seg) \<le> 1)
              (split_on CHR ''/'' t)"
  proof -
    have "\<forall>seg\<in>set (split_on CHR ''/'' t).
            list_all (\<lambda>r. CHR '':'' \<notin> set r) (colon_rests seg)
              = (length (filter (\<lambda>c. c = CHR '':'') seg) \<le> 1)"
      using split_on_no_sep colon_rests_single by blast
    then show ?thesis
      unfolding list_all_iff [of _ "split_on CHR ''/'' t"] by blast
  qed
  finally show ?thesis .
qed





section \<open>Properties of \<^verbatim>\<open>validateParams\<close>\<close>

lemma required_present_iff:
  "required_present ns p = (\<forall>n\<in>set ns. \<exists>v. p n = Some (Value v))"
proof (induction ns)
  case Nil
  show ?case by simp
next
  case (Cons n ns)
  show ?case
  proof (cases "p n")
    case None
    then show ?thesis by simp
  next
    case (Some x)
    with Cons show ?thesis by (cases x) auto
  qed
qed

lemma required_present_cong:
  "(\<forall>n\<in>set ns. p' n = p n) \<Longrightarrow> required_present ns p' = required_present ns p"
  by (simp add: required_present_iff)



section \<open>Properties of the accessors\<close>

text \<open>
  Claim C9. When the parameter is missing, the required accessors \<^verbatim>\<open>getRequiredTypedParam\<close>
  and \<^verbatim>\<open>paramSnapshotRequired\<close> throw, at the call, an error whose message contains the name
  of the parameter, and the optional accessors \<^verbatim>\<open>getTypedParam\<close> and \<^verbatim>\<open>paramSnapshot\<close>
  return \<^verbatim>\<open>null\<close>; when it is present, all four return its value.
\<close>

theorem required_accessors_throw:
  "(pm n = None \<longrightarrow>
      getRequiredTypedParam pm n = Throws (missing_message n)
      \<and> paramSnapshotRequired pm n = Throws (missing_message n)
      \<and> getTypedParam pm n = Returns None
      \<and> paramSnapshot pm n = Returns None)
   \<and> (\<forall>v. pm n = Some v \<longrightarrow>
      getRequiredTypedParam pm n = Returns v
      \<and> paramSnapshotRequired pm n = Returns v
      \<and> getTypedParam pm n = Returns (Some v)
      \<and> paramSnapshot pm n = Returns (Some v))
   \<and> (\<exists>before after. missing_message n = before @ n @ after)"
proof -
  have "missing_message n = (''Required route parameter '' @ [CHR 0x22]) @ n @ ([CHR 0x22] @ '' is missing'')"
    by (simp add: missing_message_def)
  then have "\<exists>before after. missing_message n = before @ n @ after"
    by blast
  then show ?thesis
    by (simp add: getRequiredTypedParam_def paramSnapshotRequired_def getTypedParam_def
          paramSnapshot_def)
qed

theorem required_accessors_throw_witness:
  "getRequiredTypedParam Map.empty ''userId'' = Throws (missing_message ''userId'')
   \<and> paramSnapshotRequired Map.empty ''userId'' = Throws (missing_message ''userId'')
   \<and> getTypedParam Map.empty ''userId'' = Returns None
   \<and> paramSnapshot Map.empty ''userId'' = Returns None
   \<and> getRequiredTypedParam [''userId'' \<mapsto> ''42''] ''userId'' = Returns ''42''
   \<and> getTypedParam [''userId'' \<mapsto> ''42''] ''userId'' = Returns (Some ''42'')"
  using required_accessors_throw [of Map.empty "''userId''"]
    required_accessors_throw [of "[''userId'' \<mapsto> ''42'']" "''userId''"]
  by simp

section \<open>Properties of \<^verbatim>\<open>buildPathsMap\<close>\<close>

lemma full_path_JoinPath: "b \<noteq> [] \<Longrightarrow> full_path a b = JoinPath a b"
  by (simp add: full_path_def JoinPath_def)

text \<open>
  Claim C8 (evaluation of the code where it departs from the rule). For the prefix
  \<^verbatim>\<open>users\<close> and an empty path the index builder computes \<^verbatim>\<open>users/\<close>, where
  \<^verbatim>\<open>JoinPath\<close> gives \<^verbatim>\<open>users\<close>; the tree with a route \<^verbatim>\<open>users\<close> and a child of empty
  path gets the two keys \<^verbatim>\<open>users\<close> and \<^verbatim>\<open>users/\<close>.
\<close>

theorem full_path_empty_segment:
  "full_path ''users'' [] = ''users/''
   \<and> JoinPath ''users'' [] = ''users''
   \<and> dom (buildPathsMap [Route (Some ''users'') (Some [Route (Some []) None])] [] Map.empty)
       = {''users'', ''users/''}"
  by (auto simp: full_path_def JoinPath_def strip_leading_slash_def Let_def object_set_def)

lemma collapse_repeated_slash:
  "collapse_repeated (CHR ''/'' # cs)
     = CHR ''/'' # collapse_repeated (dropWhile (\<lambda>x. x = CHR ''/'') cs)"
proof (induction cs)
  case Nil
  show ?case by simp
next
  case (Cons c cs)
  show ?case
  proof (cases "c = CHR ''/''")
    case True
    with Cons show ?thesis by simp
  next
    case False
    then show ?thesis by (cases cs) simp_all
  qed
qed

lemma collapse_repeated_other:
  "c \<noteq> CHR ''/'' \<Longrightarrow> collapse_repeated (c # cs) = c # collapse_repeated cs"
  by (cases cs) simp_all

text \<open>The two replacements of the code do what the specification says of the normalization.\<close>

lemma collapse_slashes_repeated: "collapse_slashes s = collapse_repeated s"
proof (induction s rule: collapse_slashes.induct)
  case 1
  show ?case by simp
next
  case (2 c cs)
  show ?case
  proof (cases "c = CHR ''/''")
    case True
    with "2.IH"(1) show ?thesis by (simp add: collapse_repeated_slash)
  next
    case False
    with "2.IH"(2) show ?thesis by (simp add: collapse_repeated_other)
  qed
qed

lemma normalize_code_spec: "strip_leading_slash (collapse_slashes s) = normalize_spec s"
  unfolding collapse_slashes_repeated normalize_spec_def strip_leading_slash_def
  by (cases "collapse_repeated s") auto

text \<open>
  What \<^verbatim>\<open>buildPathsMap\<close> adds to the result, for every tree, prefix and result: the paths of
  the index other than \<^verbatim>\<open>__proto__\<close>, each mapped to itself.
\<close>

lemma buildPathsMap_full_paths:
  "buildPathsMap routes pfx result
     = (\<lambda>k. if k \<in> full_paths routes pfx - {''__proto__''} then Some k else result k)"
  "visit_route route pfx result
     = (\<lambda>k. if k \<in> full_paths_route route pfx - {''__proto__''} then Some k else result k)"
proof (induction routes pfx result and route pfx result rule: buildPathsMap_visit_route.induct)
  case (1 pfx result)
  show ?case by simp
next
  case (2 route routes pfx result)
  have "buildPathsMap (route # routes) pfx result
          = buildPathsMap routes pfx (visit_route route pfx result)"
    by simp
  also have "\<dots> = (\<lambda>k. if k \<in> full_paths routes pfx - {''__proto__''} then Some k
                        else visit_route route pfx result k)"
    by (rule "2.IH"(2))
  also have "\<dots> = (\<lambda>k. if k \<in> full_paths (route # routes) pfx - {''__proto__''} then Some k
                        else result k)"
    by (subst "2.IH"(1)) (auto simp: fun_eq_iff)
  finally show ?case .
next
  case (3 ch pfx result)
  show ?case by simp
next
  case (4 p ch pfx result)
  define fp where "fp = full_path pfx p"
  define n where "n = strip_leading_slash (collapse_slashes fp)"
  define key where "key = (if n \<noteq> [] then n else ''/'')"
  define result1 where
    "result1 = (if n \<noteq> [] \<or> pfx = [] then object_set result key key else result)"
  have visit: "visit_route (Route (Some p) ch) pfx result
                 = (case ch of Some cs \<Rightarrow> buildPathsMap cs fp result1 | None \<Rightarrow> result1)"
    by (cases ch) (auto simp: Let_def fp_def n_def key_def result1_def)
  have n: "n = normalize_spec fp"
    unfolding n_def by (rule normalize_code_spec)
  have r1: "result1 = (\<lambda>k. if k \<in> registered_key pfx fp - {''__proto__''} then Some k
                          else result k)"
    by (auto simp: fun_eq_iff registered_key_def Let_def n [symmetric] key_def result1_def
          object_set_def)
  show ?case
  proof (cases ch)
    case None
    with visit r1 show ?thesis by (simp add: fp_def)
  next
    case (Some cs)
    have ih: "buildPathsMap cs fp result1
            = (\<lambda>k. if k \<in> full_paths cs fp - {''__proto__''} then Some k else result1 k)"
      by (rule "4.IH") (simp_all add: fp_def n_def key_def result1_def Some)
    have "visit_route (Route (Some p) ch) pfx result = buildPathsMap cs fp result1"
      unfolding visit by (simp only: Some option.case)
    also note ih
    also have "(\<lambda>k. if k \<in> full_paths cs fp - {''__proto__''} then Some k else result1 k)
                 = (\<lambda>k. if k \<in> full_paths_route (Route (Some p) ch) pfx - {''__proto__''}
                         then Some k else result k)"
      by (subst r1) (auto simp: fun_eq_iff Some fp_def)
    finally show ?thesis .
  qed
qed

lemma buildPathsMap_dom:
  "dom (buildPathsMap routes [] Map.empty) = full_paths routes [] - {''__proto__''}"
  unfolding buildPathsMap_full_paths by (auto simp: dom_def)

text \<open>
  Claim C7. For the tree with the single route \<^verbatim>\<open>__proto__\<close> the index of the claim is that
  one path, and \<^verbatim>\<open>buildPathsMap\<close> registers nothing: the assignment to the key
  \<^verbatim>\<open>__proto__\<close> of the result object creates no property. On other trees the code registers
  the paths of the claim: the tree of the example gets the two paths
  \<^verbatim>\<open>products/:categoryId\<close> and \<^verbatim>\<open>products/:categoryId/:productId\<close>; repeated slashes are
  collapsed and one leading slash is stripped; an empty path at the root is registered as the
  sentinel \<^verbatim>\<open>/\<close>, and a node without a path registers nothing, nor do its children.
\<close>

theorem buildPathsMap_index:
  "dom (buildPathsMap [Route (Some ''__proto__'') None] [] Map.empty) = {}
   \<and> full_paths [Route (Some ''__proto__'') None] [] = {''__proto__''}
   \<and> dom (buildPathsMap
            [Route (Some ''products/:categoryId'') (Some [Route (Some '':productId'') None])]
            [] Map.empty)
       = {''products/:categoryId'', ''products/:categoryId/:productId''}
   \<and> dom (buildPathsMap [Route (Some ''/a//b'') (Some [Route (Some ''/c'') None])] [] Map.empty)
       = {''a/b'', ''a/b/c''}
   \<and> dom (buildPathsMap [Route (Some ''//a'') None] [] Map.empty) = {''a''}
   \<and> dom (buildPathsMap [Route (Some []) None, Route None (Some [Route (Some ''x'') None])]
            [] Map.empty)
       = {''/''}"
  unfolding buildPathsMap_dom
  by (simp add: full_path_def registered_key_def normalize_spec_def insert_Diff_if insert_commute)

section \<open>Properties of \<^verbatim>\<open>buildUrl\<close>\<close>

lemma foldl_usp_append: "foldl (\<lambda>sp x. usp_append key x sp) acc vs = acc @ map (Pair key) vs"
  by (induction vs arbitrary: acc) (auto simp: usp_append_def)

lemma usp_set_fresh: "name \<notin> fst ` set l \<Longrightarrow> usp_set name v l = l @ [(name, v)]"
  by (simp add: usp_set_def)

lemma add_query_entry_fresh:
  "fst e \<notin> fst ` set acc \<Longrightarrow> add_query_entry ns acc e = acc @ query_entries_spec ns e"
  by (cases e; cases "snd e")
     (auto simp: add_query_entry_def query_entries_spec_def foldl_usp_append usp_set_fresh)

lemma query_entries_spec_keys: "fst ` set (query_entries_spec ns e) \<subseteq> {fst e}"
  by (cases e; cases "snd e") (auto simp: query_entries_spec_def)

lemma foldl_add_query_entry_distinct:
  "distinct (map fst q) \<Longrightarrow> (\<forall>k\<in>fst ` set q. k \<notin> fst ` set acc) \<Longrightarrow>
     foldl (add_query_entry ns) acc q = acc @ concat (map (query_entries_spec ns) q)"
proof (induction q arbitrary: acc)
  case Nil
  show ?case by simp
next
  case (Cons e q)
  from Cons.prems(2) have fresh: "fst e \<notin> fst ` set acc" by simp
  have step: "add_query_entry ns acc e = acc @ query_entries_spec ns e"
    by (rule add_query_entry_fresh [OF fresh])
  have d: "distinct (map fst q)" using Cons.prems(1) by simp
  have "\<forall>k\<in>fst ` set q. k \<notin> fst ` set (acc @ query_entries_spec ns e)"
  proof
    fix k assume k: "k \<in> fst ` set q"
    from Cons.prems(1) have "fst e \<notin> fst ` set q" by simp
    with k have "k \<noteq> fst e" by blast
    moreover from k Cons.prems(2) have "k \<notin> fst ` set acc" by auto
    moreover have "fst ` set (query_entries_spec ns e) \<subseteq> {fst e}"
      by (rule query_entries_spec_keys)
    ultimately show "k \<notin> fst ` set (acc @ query_entries_spec ns e)"
      by (auto simp: image_Un)
  qed
  from Cons.IH [OF d this] step show ?case by simp
qed

lemma usp_replace_filter:
  "name \<in> fst ` set l \<Longrightarrow>
     filter (\<lambda>e. fst e = name) (usp_replace name v l) = [(name, v)]
     \<and> filter (\<lambda>e. fst e \<noteq> name) (usp_replace name v l) = filter (\<lambda>e. fst e \<noteq> name) l"
  by (induction l) auto

lemma usp_set_filter:
  "filter (\<lambda>e. fst e = name) (usp_set name v l) = [(name, v)]
   \<and> filter (\<lambda>e. fst e \<noteq> name) (usp_set name v l) = filter (\<lambda>e. fst e \<noteq> name) l"
proof (cases "name \<in> fst ` set l")
  case True
  with usp_replace_filter [OF True] show ?thesis by (simp add: usp_set_def)
next
  case False
  then have "filter (\<lambda>e. fst e = name) l = []" by (auto simp: filter_empty_conv)
  with False show ?thesis by (simp add: usp_set_def)
qed

lemma join_with_empty: "join_with sep ss = [] \<Longrightarrow> list_all (\<lambda>s. s = []) ss"
  by (induction sep ss rule: join_with.induct) auto

lemma usp_toString_empty: "(usp_toString l = []) = (l = [])"
proof
  assume "usp_toString l = []"
  then have "list_all (\<lambda>s. s = []) (map (\<lambda>(name, v). form_urlencode name @ ''='' @ form_urlencode v) l)"
    unfolding usp_toString_def by (rule join_with_empty)
  then show "l = []" by (cases l) auto
next
  assume "l = []"
  then show "usp_toString l = []" by (simp add: usp_toString_def)
qed


lemma query_params_snoc:
  "query_params ns (q @ [e]) = add_query_entry ns (query_params ns q) e"
  by (simp add: query_params_def)

lemma add_query_entry_scalar:
  "is_scalar v \<Longrightarrow> add_query_entry ns acc (k, v) = usp_set k (js_String ns v) acc"
  by (cases v) (simp_all add: add_query_entry_def is_scalar_def)

text \<open>
  Claim C5. \<^verbatim>\<open>buildUrl\<close> returns the result of \<^verbatim>\<open>buildPath\<close>, followed, when the query string
  is not empty, by a question mark and the query string. For an object (its keys are distinct)
  the query entries are, in order, those of each entry: none for \<^verbatim>\<open>null\<close> and
  \<^verbatim>\<open>undefined\<close>, one per element for an array, one with the string form for a scalar. A
  scalar entry sets its key once: after it the key has exactly that one entry, and the entries
  of the other keys are as before. The two examples of the specification hold.
\<close>

theorem buildUrl_query:
  "buildUrl ns t p None = buildPath t p
   \<and> buildUrl ns t p (Some q)
       = buildPath t p
         @ (if query_params ns q = [] then [] else ''?'' @ usp_toString (query_params ns q))
   \<and> (distinct (map fst q) \<longrightarrow> query_params ns q = concat (map (query_entries_spec ns) q))
   \<and> (is_scalar v \<longrightarrow>
        filter (\<lambda>e. fst e = k) (query_params ns (q @ [(k, v)])) = [(k, js_String ns v)]
        \<and> filter (\<lambda>e. fst e \<noteq> k) (query_params ns (q @ [(k, v)]))
            = filter (\<lambda>e. fst e \<noteq> k) (query_params ns q))
   \<and> buildUrl ns ''users/:userId'' (Some [(''userId'', ''42'')]) (Some [(''tab'', QString ''posts'')])
       = ''/users/42?tab=posts''
   \<and> buildUrl ns ''search'' (Some []) (Some [(''tag'', QArray [''a'', ''b''])])
       = ''/search?tag=a&tag=b''"
proof -
  have a: "buildUrl ns t p None = buildPath t p"
    by (simp add: buildUrl_def)
  have b: "buildUrl ns t p (Some q)
       = buildPath t p
         @ (if query_params ns q = [] then [] else ''?'' @ usp_toString (query_params ns q))"
    by (simp add: buildUrl_def Let_def usp_toString_empty)
  have c: "distinct (map fst q) \<longrightarrow> query_params ns q = concat (map (query_entries_spec ns) q)"
    using foldl_add_query_entry_distinct [of q "[]" ns] by (simp add: query_params_def)
  have d: "is_scalar v \<longrightarrow>
        filter (\<lambda>e. fst e = k) (query_params ns (q @ [(k, v)])) = [(k, js_String ns v)]
        \<and> filter (\<lambda>e. fst e \<noteq> k) (query_params ns (q @ [(k, v)]))
            = filter (\<lambda>e. fst e \<noteq> k) (query_params ns q)"
    using usp_set_filter [of k "js_String ns v" "query_params ns q"]
    by (simp add: query_params_snoc add_query_entry_scalar)
  have path1: "buildPath ''users/:userId'' (Some [(''userId'', ''42'')]) = ''/users/42''"
    by (simp add: buildPath_def substitute_params_def encodeURIComponent_def uri_unreserved_def
          is_alnum_def)
  have path2: "buildPath ''search'' (Some []) = ''/search''"
    by (simp add: buildPath_def substitute_params_def)
  have q1: "query_params ns [(''tab'', QString ''posts'')] = [(''tab'', ''posts'')]"
    by (simp add: query_params_def add_query_entry_def usp_set_def js_String_def)
  have q2: "query_params ns [(''tag'', QArray [''a'', ''b''])] = [(''tag'', ''a''), (''tag'', ''b'')]"
    by (simp add: query_params_def add_query_entry_def usp_append_def)
  have e: "buildUrl ns ''users/:userId'' (Some [(''userId'', ''42'')]) (Some [(''tab'', QString ''posts'')])
       = ''/users/42?tab=posts''"
    by (simp add: buildUrl_def Let_def path1 q1 usp_toString_def form_urlencode_def
          form_encode_char_def is_alnum_def)
  have f: "buildUrl ns ''search'' (Some []) (Some [(''tag'', QArray [''a'', ''b''])])
       = ''/search?tag=a&tag=b''"
    by (simp add: buildUrl_def Let_def path2 q2 usp_toString_def form_urlencode_def
          form_encode_char_def is_alnum_def)
  from a b c d e f show ?thesis by (intro conjI)
qed

theorem buildUrl_query_witness:
  "distinct (map fst [(''tag'', QArray [''a'', ''b'']), (''skip'', QNull), (''page'', QNumber (2::nat))])
   \<and> query_params (\<lambda>n. ''2'')
         [(''tag'', QArray [''a'', ''b'']), (''skip'', QNull), (''page'', QNumber (2::nat))]
       = [(''tag'', ''a''), (''tag'', ''b''), (''page'', ''2'')]
   \<and> is_scalar (QBoolean True :: nat query_value)
   \<and> filter (\<lambda>e. fst e = ''page'')
         (query_params (\<lambda>n::nat. ''2'') ([(''page'', QNumber 2)] @ [(''page'', QBoolean True)]))
       = [(''page'', ''true'')]"
proof -
  have d: "distinct (map fst [(''tag'', QArray [''a'', ''b'']), (''skip'', QNull), (''page'', QNumber (2::nat))])"
    by simp
  have s: "is_scalar (QBoolean True :: nat query_value)"
    by (simp add: is_scalar_def)
  note inst1 = buildUrl_query [of "\<lambda>n::nat. ''2''" "[]" None
      "[(''tag'', QArray [''a'', ''b'']), (''skip'', QNull), (''page'', QNumber (2::nat))]"]
  note inst2 = buildUrl_query [of "\<lambda>n::nat. ''2''" "[]" None "[(''page'', QNumber (2::nat))]"
      "QBoolean True" "''page''"]
  from inst1 d have "query_params (\<lambda>n. ''2'')
         [(''tag'', QArray [''a'', ''b'']), (''skip'', QNull), (''page'', QNumber (2::nat))]
       = [(''tag'', ''a''), (''tag'', ''b''), (''page'', ''2'')]"
    by (simp add: query_entries_spec_def js_String_def)
  moreover from inst2 s have "filter (\<lambda>e. fst e = ''page'')
         (query_params (\<lambda>n::nat. ''2'') ([(''page'', QNumber 2)] @ [(''page'', QBoolean True)]))
       = [(''page'', ''true'')]"
    by (simp add: js_String_def)
  ultimately show ?thesis using d s by (intro conjI)
qed

section \<open>Properties of \<^verbatim>\<open>isActive\<close>\<close>

lemma hd_split_on: "hd (split_on c s) = takeWhile (\<lambda>x. x \<noteq> c) s"
  by (induction s) (auto simp: Let_def)

lemma takeWhile_twice:
  "takeWhile P (takeWhile Q xs) = takeWhile (\<lambda>x. Q x \<and> P x) xs"
proof (induction xs)
  case Nil
  show ?case by simp
next
  case (Cons x xs)
  show ?case
  proof (cases "Q x")
    case True
    with Cons show ?thesis by simp
  next
    case False
    then show ?thesis by simp
  qed
qed

lemma current_path_strip:
  "hd (split_on CHR ''#'' (hd (split_on CHR ''?'' url)))
     = takeWhile (\<lambda>c. c \<noteq> CHR ''?'' \<and> c \<noteq> CHR ''#'') url"
  by (simp only: hd_split_on takeWhile_twice)

lemma match_all_params_skip:
  "CHR '':'' \<notin> set v \<Longrightarrow> match_all_params (v @ x) = match_all_params x"
  by (induction v) auto

lemma not_word_bracket [simp]: "\<not> is_word CHR ''[''"
  by (simp add: is_word_def)

lemma takeWhile_word_replace:
  "takeWhile is_word cs = [] \<Longrightarrow> takeWhile is_word (replace_all_params ''[^/]+'' cs) = []"
  by (cases cs) (auto split: if_splits)

lemma no_tokens_left: "match_all_params (replace_all_params ''[^/]+'' t) = []"
proof (induction t rule: match_all_params.induct)
  case 1
  show ?case by simp
next
  case (2 c cs)
  show ?case
  proof (cases "c = CHR '':'' \<and> takeWhile is_word cs \<noteq> []")
    case True
    then have r: "replace_all_params ''[^/]+'' (c # cs)
                    = ''[^/]+'' @ replace_all_params ''[^/]+'' (dropWhile is_word cs)"
      by simp
    from "2.IH"(1) True
    have ih: "match_all_params (replace_all_params ''[^/]+'' (dropWhile is_word cs)) = []"
      by blast
    have "CHR '':'' \<notin> set ''[^/]+''" by simp
    then have "match_all_params (''[^/]+'' @ replace_all_params ''[^/]+'' (dropWhile is_word cs))
                 = match_all_params (replace_all_params ''[^/]+'' (dropWhile is_word cs))"
      by (rule match_all_params_skip)
    with ih show ?thesis by (simp only: r)
  next
    case False
    then have r: "replace_all_params ''[^/]+'' (c # cs) = c # replace_all_params ''[^/]+'' cs"
      by simp
    from "2.IH"(2) False
    have ih: "match_all_params (replace_all_params ''[^/]+'' cs) = []"
      by blast
    have "\<not> (c = CHR '':'' \<and> takeWhile is_word (replace_all_params ''[^/]+'' cs) \<noteq> [])"
    proof
      assume a: "c = CHR '':'' \<and> takeWhile is_word (replace_all_params ''[^/]+'' cs) \<noteq> []"
      with False have "takeWhile is_word cs = []" by simp
      then have "takeWhile is_word (replace_all_params ''[^/]+'' cs) = []"
        by (rule takeWhile_word_replace)
      with a show False by simp
    qed
    then have "match_all_params (c # replace_all_params ''[^/]+'' cs)
                 = match_all_params (replace_all_params ''[^/]+'' cs)"
      by (subst match_all_params.simps) (simp only: if_False)
    with ih show ?thesis by (simp only: r)
  qed
qed


lemma matches_weaken: "matches es a s \<Longrightarrow> matches es False s"
  by (induction es a s rule: matches.induct) auto














lemma dollar_not_hex [simp]: "\<not> is_hex_digit CHR ''$''"
  by (simp add: is_hex_digit_def)































text \<open>
  The pattern of a template without syntax characters compiles to the terms of its elements,
  and the compiled pattern matches as the specification's reading of it does.
\<close>

lemma of_char_slash: "((of_char c :: nat) = 47) = (c = CHR ''/'')"
proof -
  have "(of_char c :: nat) = of_char CHR ''/'' \<longleftrightarrow> c = CHR ''/''"
    by (rule of_char_eq_iff)
  then show ?thesis by simp
qed

lemma not_slash_class: "class_matches True [ItemRange 47 47] c = (c \<noteq> CHR ''/'')"
  by (auto simp: class_matches_def of_char_slash [symmetric])

lemma rep_opt_chars:
  "i \<le> length s \<Longrightarrow> length s - i \<le> fuel \<Longrightarrow>
     rep_opt (\<lambda>i' k'. char_step P True s i' k') fuel None i k
       = (\<exists>j. i \<le> j \<and> j \<le> length s \<and> (\<forall>x. i \<le> x \<and> x < j \<longrightarrow> P (s ! x)) \<and> k j)"
proof (induction fuel arbitrary: i)
  case 0
  then have "i = length s" by simp
  then show ?case by auto
next
  case (Suc fuel)
  show ?case
  proof (cases "i < length s")
    case False
    with Suc.prems have "i = length s" by simp
    then show ?thesis by (auto simp: char_step_def)
  next
    case True
    then have ih: "rep_opt (\<lambda>i' k'. char_step P True s i' k') fuel None (Suc i) k
       = (\<exists>j. Suc i \<le> j \<and> j \<le> length s \<and> (\<forall>x. Suc i \<le> x \<and> x < j \<longrightarrow> P (s ! x)) \<and> k j)"
      using Suc.prems by (intro Suc.IH) simp_all
    have "rep_opt (\<lambda>i' k'. char_step P True s i' k') (Suc fuel) None i k
            = ((P (s ! i) \<and> rep_opt (\<lambda>i' k'. char_step P True s i' k') fuel None (Suc i) k) \<or> k i)"
      using True by (simp add: char_step_def dec_max_def)
    also have "\<dots> = (\<exists>j. i \<le> j \<and> j \<le> length s \<and> (\<forall>x. i \<le> x \<and> x < j \<longrightarrow> P (s ! x)) \<and> k j)"
      (is "?l = ?r")
    proof
      assume ?l
      then show ?r
      proof
        assume "P (s ! i) \<and> rep_opt (\<lambda>i' k'. char_step P True s i' k') fuel None (Suc i) k"
        with ih obtain j where j: "Suc i \<le> j" "j \<le> length s"
          "\<forall>x. Suc i \<le> x \<and> x < j \<longrightarrow> P (s ! x)" "k j" and pi: "P (s ! i)"
          by blast
        have "\<forall>x. i \<le> x \<and> x < j \<longrightarrow> P (s ! x)"
        proof (intro allI impI)
          fix x assume "i \<le> x \<and> x < j"
          then have "x = i \<or> (Suc i \<le> x \<and> x < j)" by auto
          with pi j(3) show "P (s ! x)" by blast
        qed
        with j show ?r by (intro exI [of _ j]) simp
      next
        assume "k i"
        with True show ?r by (intro exI [of _ i]) auto
      qed
    next
      assume ?r
      then obtain j where j: "i \<le> j" "j \<le> length s" "\<forall>x. i \<le> x \<and> x < j \<longrightarrow> P (s ! x)" "k j"
        by blast
      show ?l
      proof (cases "j = i")
        case True
        with j show ?thesis by simp
      next
        case False
        with j have "Suc i \<le> j" "P (s ! i)" by simp_all
        moreover from j have "\<forall>x. Suc i \<le> x \<and> x < j \<longrightarrow> P (s ! x)" by simp
        ultimately show ?thesis using ih j by blast
      qed
    qed
    finally show ?thesis .
  qed
qed

lemma match_Class_eta: "match_term (Class negated items) f s = char_step (class_matches negated items) f s"
  by (intro ext) simp

lemma char_step_forward:
  "i < length s \<Longrightarrow> char_step P True s i k = (P (s ! i) \<and> k (Suc i))"
  by (simp add: char_step_def)

lemma match_wildcard:
  "match_term (Repeat 1 None (Class True [ItemRange 47 47])) True s i k
     = (\<exists>j. i < j \<and> j \<le> length s \<and> (\<forall>x. i \<le> x \<and> x < j \<longrightarrow> s ! x \<noteq> CHR ''/'') \<and> k j)"
proof (cases "i < length s")
  case False
  then show ?thesis by (auto simp: char_step_def)
next
  case True
  let ?P = "class_matches True [ItemRange 47 47]"
  have "match_term (Repeat 1 None (Class True [ItemRange 47 47])) True s i k
          = char_step ?P True s i
              (\<lambda>j. rep_opt (\<lambda>i' k'. char_step ?P True s i' k') (length s) None j k)"
    by (simp add: dec_max_def match_Class_eta)
  also have "\<dots> = (?P (s ! i) \<and> rep_opt (\<lambda>i' k'. char_step ?P True s i' k') (length s) None (Suc i) k)"
    by (rule char_step_forward [OF True])
  also have "\<dots> = (?P (s ! i) \<and> (\<exists>j. Suc i \<le> j \<and> j \<le> length s
                      \<and> (\<forall>x. Suc i \<le> x \<and> x < j \<longrightarrow> ?P (s ! x)) \<and> k j))"
    using True by (subst rep_opt_chars) simp_all
  also have "\<dots> = (\<exists>j. i < j \<and> j \<le> length s \<and> (\<forall>x. i \<le> x \<and> x < j \<longrightarrow> s ! x \<noteq> CHR ''/'') \<and> k j)"
    (is "?l = ?r")
  proof
    assume ?l
    then obtain j where pi: "?P (s ! i)" and j: "Suc i \<le> j" "j \<le> length s"
      "\<forall>x. Suc i \<le> x \<and> x < j \<longrightarrow> ?P (s ! x)" "k j"
      by blast
    have "\<forall>x. i \<le> x \<and> x < j \<longrightarrow> s ! x \<noteq> CHR ''/''"
    proof (intro allI impI)
      fix x assume "i \<le> x \<and> x < j"
      then have "x = i \<or> (Suc i \<le> x \<and> x < j)" by auto
      with pi j(3) show "s ! x \<noteq> CHR ''/''" by (auto simp: not_slash_class)
    qed
    with j show ?r by (intro exI [of _ j]) simp
  next
    assume ?r
    then obtain j where j: "i < j" "j \<le> length s" "\<forall>x. i \<le> x \<and> x < j \<longrightarrow> s ! x \<noteq> CHR ''/''" "k j"
      by blast
    then have "?P (s ! i)" by (simp add: not_slash_class)
    moreover from j have "Suc i \<le> j \<and> j \<le> length s
        \<and> (\<forall>x. Suc i \<le> x \<and> x < j \<longrightarrow> ?P (s ! x)) \<and> k j"
      by (simp add: not_slash_class)
    ultimately show ?l by blast
  qed
  finally show ?thesis .
qed

lemma matches_wild_iff:
  "matches (NonSlashPlus # es) a xs
     = (\<exists>n. 0 < n \<and> n \<le> length xs \<and> (\<forall>x. x < n \<longrightarrow> xs ! x \<noteq> CHR ''/'') \<and> matches es a (drop n xs))"
proof (induction xs)
  case Nil
  show ?case by simp
next
  case (Cons y ys)
  show ?case (is "?l = ?r")
  proof
    assume l: ?l
    then have y: "y \<noteq> CHR ''/''" and disj: "matches (NonSlashPlus # es) a ys \<or> matches es a ys"
      by simp_all
    from disj show ?r
    proof
      assume "matches (NonSlashPlus # es) a ys"
      with Cons.IH obtain n where n: "0 < n" "n \<le> length ys" "\<forall>x. x < n \<longrightarrow> ys ! x \<noteq> CHR ''/''"
        "matches es a (drop n ys)"
        by blast
      have "\<forall>x. x < Suc n \<longrightarrow> (y # ys) ! x \<noteq> CHR ''/''"
        using y n(3) by (auto simp: nth_Cons split: nat.splits)
      with n show ?r by (intro exI [of _ "Suc n"]) simp
    next
      assume "matches es a ys"
      with y show ?r by (intro exI [of _ "Suc 0"]) simp
    qed
  next
    assume ?r
    then obtain n where n: "0 < n" "n \<le> length (y # ys)" "\<forall>x. x < n \<longrightarrow> (y # ys) ! x \<noteq> CHR ''/''"
      "matches es a (drop n (y # ys))"
      by blast
    from n(1,3) have y: "y \<noteq> CHR ''/''" by auto
    from n(1) obtain n' where n': "n = Suc n'" by (cases n) auto
    show ?l
    proof (cases n')
      case 0
      with n n' y show ?thesis by simp
    next
      case (Suc n'')
      have "\<forall>x. x < n' \<longrightarrow> ys ! x \<noteq> CHR ''/''"
      proof (intro allI impI)
        fix x assume "x < n'"
        then have "Suc x < n" using n' by simp
        with n(3) have "(y # ys) ! Suc x \<noteq> CHR ''/''" by blast
        then show "ys ! x \<noteq> CHR ''/''" by simp
      qed
      with n n' Suc have "\<exists>n. 0 < n \<and> n \<le> length ys \<and> (\<forall>x. x < n \<longrightarrow> ys ! x \<noteq> CHR ''/'')
          \<and> matches es a (drop n ys)"
        by (intro exI [of _ n']) simp
      with Cons.IH y show ?thesis by simp
    qed
  qed
qed

lemma match_seq_matches:
  "i \<le> length s \<Longrightarrow>
     match_seq (map elem_regex es @ (if a then [LineEnd] else [])) True s i (\<lambda>j. True)
       = matches es a (drop i s)"
proof (induction es arbitrary: i)
  case Nil
  then show ?case by (cases a) auto
next
  case (Cons e es)
  show ?case
  proof (cases e)
    case (Lit c)
    show ?thesis
    proof (cases "i < length s")
      case True
      then have d: "drop i s = s ! i # drop (Suc i) s"
        by (simp add: Cons_nth_drop_Suc)
      from True have "Suc i \<le> length s" by simp
      from Cons.IH [OF this] True Lit d show ?thesis
        by (simp add: char_step_def of_char_eq_iff)
    next
      case False
      with Lit show ?thesis by (simp add: char_step_def)
    qed
  next
    case NonSlashPlus
    have "match_seq (map elem_regex (e # es) @ (if a then [LineEnd] else [])) True s i (\<lambda>j. True)
            = (\<exists>j. i < j \<and> j \<le> length s \<and> (\<forall>x. i \<le> x \<and> x < j \<longrightarrow> s ! x \<noteq> CHR ''/'')
                 \<and> match_seq (map elem_regex es @ (if a then [LineEnd] else [])) True s j (\<lambda>j. True))"
      using NonSlashPlus by (simp only: list.map elem_regex.simps append_Cons match_seq.simps if_True
            match_wildcard)
    also have "\<dots> = (\<exists>j. i < j \<and> j \<le> length s \<and> (\<forall>x. i \<le> x \<and> x < j \<longrightarrow> s ! x \<noteq> CHR ''/'')
                 \<and> matches es a (drop j s))"
      using Cons.IH by auto
    also have "\<dots> = (\<exists>n. 0 < n \<and> n \<le> length (drop i s)
                 \<and> (\<forall>x. x < n \<longrightarrow> drop i s ! x \<noteq> CHR ''/'') \<and> matches es a (drop n (drop i s)))"
      (is "?l = ?r")
    proof
      assume ?l
      then obtain j where j: "i < j" "j \<le> length s" "\<forall>x. i \<le> x \<and> x < j \<longrightarrow> s ! x \<noteq> CHR ''/''"
        "matches es a (drop j s)"
        by blast
      have "\<forall>x. x < j - i \<longrightarrow> drop i s ! x \<noteq> CHR ''/''"
      proof (intro allI impI)
        fix x assume "x < j - i"
        with j have "i \<le> i + x \<and> i + x < j" "i + x < length s" by simp_all
        with j(3) show "drop i s ! x \<noteq> CHR ''/''" by simp
      qed
      moreover from j have "drop (j - i) (drop i s) = drop j s" by simp
      ultimately show ?r using j by (intro exI [of _ "j - i"]) simp
    next
      assume ?r
      then obtain n where n: "0 < n" "n \<le> length (drop i s)"
        "\<forall>x. x < n \<longrightarrow> drop i s ! x \<noteq> CHR ''/''" "matches es a (drop n (drop i s))"
        by blast
      have "\<forall>x. i \<le> x \<and> x < i + n \<longrightarrow> s ! x \<noteq> CHR ''/''"
      proof (intro allI impI)
        fix x assume x: "i \<le> x \<and> x < i + n"
        then have "x - i < n" by auto
        with n(3) have "drop i s ! (x - i) \<noteq> CHR ''/''" by blast
        moreover have "drop i s ! (x - i) = s ! x"
        proof -
          from x have e: "i + (x - i) = x" by simp
          from Cons.prems have "i \<le> length s" .
          then have "drop i s ! (x - i) = s ! (i + (x - i))" by (rule nth_drop)
          with e show ?thesis by simp
        qed
        ultimately show "s ! x \<noteq> CHR ''/''" by simp
      qed
      moreover from n(4) have "matches es a (drop (i + n) s)" by (simp add: add.commute)
      ultimately show ?l using n by (intro exI [of _ "i + n"]) simp
    qed
    also have "\<dots> = matches (NonSlashPlus # es) a (drop i s)"
      by (rule matches_wild_iff [symmetric])
    finally show ?thesis using NonSlashPlus by simp
  qed
qed


lemma plain_step:
  "\<not> is_syntax_char c \<Longrightarrow>
     parse_step st c cs = Compiled (add_term (CodeUnit (of_char c)) True st, 0)"
  by (auto simp: is_syntax_char_def parse_step_def)

lemma wildcard_class:
  "parse_class (''^/]+'' @ rest) = Compiled (Class True [ItemRange 47 47], 3)"
  by (simp add: parse_class_def parse_class_atom_def backslash_def range_follows_def)

lemma wildcard_step:
  "parse_step st CHR ''['' (''^/]+'' @ rest)
     = Compiled (add_term (Class True [ItemRange 47 47]) True st, 3)"
  by (simp only: parse_step_def wildcard_class) (simp add: backslash_def)

lemma plus_step:
  "\<not> prefix ''?'' rest \<Longrightarrow>
     parse_step (add_term r True st) CHR ''+'' rest
       = Compiled (Parser (open_groups st) (finished st) (current st @ [Repeat 1 None r]) False, 0)"
  by (simp add: parse_step_def with_lazy_def quantify_def add_term_def lazy_mark_def)

lemma parse_loop_wildcard:
  assumes "\<not> prefix ''?'' rest"
  shows "parse_loop st (''[^/]+'' @ rest)
           = parse_loop (Parser (open_groups st) (finished st)
               (current st @ [Repeat 1 None (Class True [ItemRange 47 47])]) False) rest"
proof -
  have "parse_loop st (''[^/]+'' @ rest) = parse_loop st (CHR ''['' # (''^/]+'' @ rest))"
    by simp
  also have "\<dots> = parse_loop (add_term (Class True [ItemRange 47 47]) True st)
                       (drop 3 (''^/]+'' @ rest))"
    by (subst parse_loop.simps) (simp only: wildcard_step regexp_result.case prod.case)
  also have "\<dots> = parse_loop (add_term (Class True [ItemRange 47 47]) True st) (CHR ''+'' # rest)"
    by simp
  also have "\<dots> = parse_loop (Parser (open_groups st) (finished st)
               (current st @ [Repeat 1 None (Class True [ItemRange 47 47])]) False) (drop 0 rest)"
    by (subst parse_loop.simps) (simp only: plus_step [OF assms] regexp_result.case prod.case)
  finally show ?thesis by simp
qed

lemma parse_loop_plain_char:
  assumes "\<not> is_syntax_char c"
  shows "parse_loop st (c # rest)
           = parse_loop (Parser (open_groups st) (finished st) (current st @ [CodeUnit (of_char c)]) True) rest"
proof -
  have "parse_loop st (c # rest) = parse_loop (add_term (CodeUnit (of_char c)) True st) (drop 0 rest)"
    by (subst parse_loop.simps) (simp only: plain_step [OF assms] regexp_result.case prod.case)
  then show ?thesis by (simp add: add_term_def)
qed

lemma parse_loop_tail:
  "parse_loop st (if exact then ''$'' else [])
     = (if open_groups st = [] then Compiled (finished st @ [current st @ (if exact then [LineEnd] else [])])
        else SyntaxError)"
  by (cases exact) (simp_all add: parse_step_def add_term_def)

lemma question_not_plain: "is_syntax_char CHR ''?''"
  by (simp add: is_syntax_char_def)

lemma replace_not_question:
  assumes "list_all (\<lambda>c. \<not> is_syntax_char c) t"
  shows "\<not> prefix ''?'' (replace_all_params ''[^/]+'' t @ (if exact then ''$'' else []))"
proof (cases t)
  case Nil
  then show ?thesis by (cases exact) simp_all
next
  case (Cons c cs)
  with assms have "c \<noteq> CHR ''?''"
    using question_not_plain by auto
  with Cons show ?thesis by simp
qed

lemma parse_plain:
  "list_all (\<lambda>c. \<not> is_syntax_char c) t \<Longrightarrow>
     parse_loop st (replace_all_params ''[^/]+'' t @ (if exact then ''$'' else []))
       = (if open_groups st = []
          then Compiled (finished st @ [current st @ map elem_regex (pattern_elems t)
                                      @ (if exact then [LineEnd] else [])])
          else SyntaxError)"
proof (induction t arbitrary: st rule: pattern_elems.induct)
  case 1
  show ?case
    by (simp only: replace_all_params.simps pattern_elems.simps append_Nil list.map parse_loop_tail)
next
  case (2 c cs)
  from "2.prems" have c: "\<not> is_syntax_char c" and cs: "list_all (\<lambda>c. \<not> is_syntax_char c) cs"
    by simp_all
  show ?case
  proof (cases "c = CHR '':'' \<and> takeWhile is_word cs \<noteq> []")
    case True
    then have r: "replace_all_params ''[^/]+'' (c # cs)
                    = ''[^/]+'' @ replace_all_params ''[^/]+'' (dropWhile is_word cs)"
      and pe: "pattern_elems (c # cs) = NonSlashPlus # pattern_elems (dropWhile is_word cs)"
      by simp_all
    from cs have rest: "list_all (\<lambda>c. \<not> is_syntax_char c) (dropWhile is_word cs)"
      by (auto simp: list_all_iff dest: set_dropWhileD)
    define st1 where "st1 = Parser (open_groups st) (finished st)
               (current st @ [Repeat 1 None (Class True [ItemRange 47 47])]) False"
    have "parse_loop st (replace_all_params ''[^/]+'' (c # cs) @ (if exact then ''$'' else []))
            = parse_loop st (''[^/]+'' @ (replace_all_params ''[^/]+'' (dropWhile is_word cs)
                                          @ (if exact then ''$'' else [])))"
      by (simp only: r append_assoc)
    also have "\<dots> = parse_loop st1 (replace_all_params ''[^/]+'' (dropWhile is_word cs)
                                          @ (if exact then ''$'' else []))"
      unfolding st1_def by (rule parse_loop_wildcard [OF replace_not_question [OF rest]])
    also have "\<dots> = (if open_groups st1 = []
          then Compiled (finished st1 @ [current st1 @ map elem_regex (pattern_elems (dropWhile is_word cs))
                                      @ (if exact then [LineEnd] else [])])
          else SyntaxError)"
      by (rule "2.IH"(1) [OF True rest])
    finally have f: "parse_loop st (replace_all_params ''[^/]+'' (c # cs) @ (if exact then ''$'' else []))
        = (if open_groups st1 = []
           then Compiled (finished st1 @ [current st1 @ map elem_regex (pattern_elems (dropWhile is_word cs))
                                      @ (if exact then [LineEnd] else [])])
           else SyntaxError)" .
    show ?thesis
      unfolding f pe by (simp add: st1_def)
  next
    case False
    then have r: "replace_all_params ''[^/]+'' (c # cs) = c # replace_all_params ''[^/]+'' cs"
      and pe: "pattern_elems (c # cs) = Lit c # pattern_elems cs"
      by simp_all
    define st1 where "st1 = Parser (open_groups st) (finished st) (current st @ [CodeUnit (of_char c)]) True"
    have "parse_loop st (replace_all_params ''[^/]+'' (c # cs) @ (if exact then ''$'' else []))
            = parse_loop st (c # (replace_all_params ''[^/]+'' cs @ (if exact then ''$'' else [])))"
      by (simp only: r append_Cons)
    also have "\<dots> = parse_loop st1 (replace_all_params ''[^/]+'' cs
                                          @ (if exact then ''$'' else []))"
      unfolding st1_def by (rule parse_loop_plain_char [OF c])
    also have "\<dots> = (if open_groups st1 = []
          then Compiled (finished st1 @ [current st1 @ map elem_regex (pattern_elems cs)
                                      @ (if exact then [LineEnd] else [])])
          else SyntaxError)"
      by (rule "2.IH"(2) [OF False cs])
    finally have f: "parse_loop st (replace_all_params ''[^/]+'' (c # cs) @ (if exact then ''$'' else []))
        = (if open_groups st1 = []
           then Compiled (finished st1 @ [current st1 @ map elem_regex (pattern_elems cs)
                                      @ (if exact then [LineEnd] else [])])
           else SyntaxError)" .
    show ?thesis
      unfolding f pe by (simp add: st1_def)
  qed
qed

lemma not_syntax_slash: "\<not> is_syntax_char CHR ''/''"
  by (simp add: is_syntax_char_def backslash_def)

lemma compile_plain_template:
  assumes "regex_plain t"
  shows "compile_regex (''^'' @ ''/'' @ replace_all_params ''[^/]+'' t @ (if exact then ''$'' else []))
           = Compiled [[LineStart, CodeUnit 47] @ map elem_regex (pattern_elems t)
                        @ (if exact then [LineEnd] else [])]"
proof -
  from assms have plain: "list_all (\<lambda>c. \<not> is_syntax_char c) t"
    by (simp add: regex_plain_def)
  define st0 where "st0 = Parser [] [] [] False"
  define st1 where "st1 = Parser [] [] [LineStart] False"
  define st2 where "st2 = Parser [] [] [LineStart, CodeUnit 47] True"
  define body where "body = replace_all_params ''[^/]+'' t @ (if exact then ''$'' else [])"
  have "parse_loop st0 (CHR ''^'' # CHR ''/'' # body) = parse_loop st1 (drop 0 (CHR ''/'' # body))"
    by (subst parse_loop.simps) (simp add: parse_step_def add_term_def st0_def st1_def backslash_def)
  also have "\<dots> = parse_loop st2 body"
    using parse_loop_plain_char [OF not_syntax_slash, of st1 body]
    by (simp add: st1_def st2_def)
  also have "\<dots> = Compiled [[LineStart, CodeUnit 47] @ map elem_regex (pattern_elems t)
                        @ (if exact then [LineEnd] else [])]"
    unfolding body_def by (subst parse_plain [OF plain]) (simp add: st2_def)
  finally show ?thesis
    by (simp add: compile_regex_def st0_def body_def)
qed

lemma regexp_test_anchored:
  "regexp_test [LineStart # rs] s = match_seq rs True s 0 (\<lambda>j. True)"
proof -
  have "list_ex (\<lambda>i. i = 0 \<and> match_seq rs True s i (\<lambda>j. True)) [0 ..< Suc (length s)]
          = match_seq rs True s 0 (\<lambda>j. True)"
    by (auto simp: list_ex_iff)
  then show ?thesis
    by (simp add: regexp_test_def)
qed

lemma test_plain_pattern:
  "regexp_test [[LineStart, CodeUnit 47] @ map elem_regex es @ (if a then [LineEnd] else [])] s
     = matches (Lit CHR ''/'' # es) a s"
proof -
  have "regexp_test [[LineStart, CodeUnit 47] @ map elem_regex es @ (if a then [LineEnd] else [])] s
          = match_seq (map elem_regex (Lit CHR ''/'' # es) @ (if a then [LineEnd] else [])) True s 0
              (\<lambda>j. True)"
    by (simp only: append_Cons append_Nil regexp_test_anchored list.map elem_regex.simps) simp
  also have "\<dots> = matches (Lit CHR ''/'' # es) a (drop 0 s)"
    by (rule match_seq_matches) simp
  finally show ?thesis by simp
qed

lemma isActive_unfold:
  "isActive url t exact =
     (case compile_regex (''^'' @ ''/'' @ replace_all_params ''[^/]+'' t @ (if exact then ''$'' else []))
      of Compiled r \<Rightarrow>
           Compiled (regexp_test r (takeWhile (\<lambda>c. c \<noteq> CHR ''?'' \<and> c \<noteq> CHR ''#'') url))
       | SyntaxError \<Rightarrow> SyntaxError
       | Unsupported \<Rightarrow> Unsupported)"
  by (cases exact) (simp_all only: isActive_def Let_def current_path_strip if_True if_False
        append_assoc append_Nil2)

lemma isActive_plain:
  "regex_plain t \<Longrightarrow>
     isActive url t exact
       = Compiled (matches (Lit CHR ''/'' # pattern_elems t) exact
           (takeWhile (\<lambda>c. c \<noteq> CHR ''?'' \<and> c \<noteq> CHR ''#'') url))"
  by (simp only: isActive_unfold compile_plain_template regexp_result.case test_plain_pattern)



lemma example_names: "getParamNames ''users/:userId'' = [''userId'']"
  by (simp add: getParamNames_def js_match_params_def is_word_def)

lemma example_pattern: "replace_all_params ''[^/]+'' ''users/:userId'' = ''users/[^/]+''"
  by (simp add: is_word_def)











text \<open>A template without syntax characters always compiles: the call returns.\<close>

lemma isActive_plain_returns:
  "regex_plain t \<Longrightarrow> \<exists>b. isActive url t exact = Compiled b"
  by (simp only: isActive_plain) blast

end
